theory Spec2Isabelle
  imports Complex_Main "HOL-Library.Sublist" "HOL-Library.AList" "HOL-Library.Word"
begin

chapter \<open>The model\<close>

section \<open>Go strings\<close>

text \<open>
  A Go string is a sequence of bytes, modelled as a \<^typ>\<open>string\<close>.  The functions of
  package \<^verbatim>\<open>strings\<close> that the services call are written out as far as they are used:
  \<^verbatim>\<open>Split\<close> with a one-byte separator, \<^verbatim>\<open>Trim\<close> with a cutset of ASCII bytes.
\<close>

fun Contains :: "string \<Rightarrow> string \<Rightarrow> bool" where
  "Contains [] substr = (substr = [])"
| "Contains (c # cs) substr = (prefix substr (c # cs) \<or> Contains cs substr)"

fun Split :: "string \<Rightarrow> char \<Rightarrow> string list" where
  "Split [] sep = [[]]"
| "Split (c # cs) sep =
     (if c = sep then [] # Split cs sep
      else (case Split cs sep of [] \<Rightarrow> [[c]] | p # ps \<Rightarrow> (c # p) # ps))"

text \<open>\<^verbatim>\<open>Join\<close> undoes \<^verbatim>\<open>Split\<close>; the services do not call it, the properties below speak with it.\<close>

fun Join :: "string list \<Rightarrow> char \<Rightarrow> string" where
  "Join [] sep = []"
| "Join [p] sep = p"
| "Join (p # q # ps) sep = p @ sep # Join (q # ps) sep"

text \<open>
  \<^verbatim>\<open>ReplaceAll(s, old, new)\<close> replaces the non-overlapping occurrences of \<open>old\<close> from left
  to right.  For an empty \<open>old\<close> Go inserts \<open>new\<close> before every character and at the end.
\<close>

fun ReplaceAll :: "string \<Rightarrow> string \<Rightarrow> string \<Rightarrow> string" where
  "ReplaceAll [] old new = (if old = [] then new else [])"
| "ReplaceAll (c # cs) old new =
     (if old = [] then new @ c # ReplaceAll cs old new
      else if prefix old (c # cs) then new @ ReplaceAll (drop (length old) (c # cs)) old new
      else c # ReplaceAll cs old new)"

text \<open>
  \<^verbatim>\<open>TrimSpace\<close> removes leading and trailing white space as Unicode defines it.  On the
  bytes of a string these are the UTF-8 encodings of U+0009..U+000D, U+0020, U+0085,
  U+00A0, U+1680, U+2000..U+200A, U+2028, U+2029, U+202F, U+205F and U+3000.
\<close>

definition unicode_spaces :: "string list" where
  "unicode_spaces =
     [[CHR 0x09], [CHR 0x0A], [CHR 0x0B], [CHR 0x0C], [CHR 0x0D], [CHR 0x20],
      [CHR 0xC2, CHR 0x85], [CHR 0xC2, CHR 0xA0],
      [CHR 0xE1, CHR 0x9A, CHR 0x80],
      [CHR 0xE2, CHR 0x80, CHR 0x80], [CHR 0xE2, CHR 0x80, CHR 0x81],
      [CHR 0xE2, CHR 0x80, CHR 0x82], [CHR 0xE2, CHR 0x80, CHR 0x83],
      [CHR 0xE2, CHR 0x80, CHR 0x84], [CHR 0xE2, CHR 0x80, CHR 0x85],
      [CHR 0xE2, CHR 0x80, CHR 0x86], [CHR 0xE2, CHR 0x80, CHR 0x87],
      [CHR 0xE2, CHR 0x80, CHR 0x88], [CHR 0xE2, CHR 0x80, CHR 0x89],
      [CHR 0xE2, CHR 0x80, CHR 0x8A],
      [CHR 0xE2, CHR 0x80, CHR 0xA8], [CHR 0xE2, CHR 0x80, CHR 0xA9],
      [CHR 0xE2, CHR 0x80, CHR 0xAF], [CHR 0xE2, CHR 0x81, CHR 0x9F],
      [CHR 0xE3, CHR 0x80, CHR 0x80]]"

definition leading_space :: "string \<Rightarrow> string option" where
  "leading_space s = find (\<lambda>sp. prefix sp s) unicode_spaces"

definition trailing_space :: "string \<Rightarrow> string option" where
  "trailing_space s = find (\<lambda>sp. suffix sp s) unicode_spaces"

lemma unicode_spaces_nonempty: "sp \<in> set unicode_spaces \<Longrightarrow> sp \<noteq> []"
  by (auto simp: unicode_spaces_def)

lemma leading_space_shorter:
  "leading_space s = Some sp \<Longrightarrow> length (drop (length sp) s) < length s"
  by (auto simp: leading_space_def find_Some_iff prefix_def
           dest!: nth_mem [THEN unicode_spaces_nonempty])

lemma trailing_space_shorter:
  "trailing_space s = Some sp \<Longrightarrow> length (take (length s - length sp) s) < length s"
  by (auto simp: trailing_space_def find_Some_iff suffix_def
           dest!: nth_mem [THEN unicode_spaces_nonempty])

function TrimLeftSpace :: "string \<Rightarrow> string" where
  "TrimLeftSpace s =
     (case leading_space s of None \<Rightarrow> s | Some sp \<Rightarrow> TrimLeftSpace (drop (length sp) s))"
  by pat_completeness auto
termination
  by (relation "measure length") (auto dest: leading_space_shorter)

function TrimRightSpace :: "string \<Rightarrow> string" where
  "TrimRightSpace s =
     (case trailing_space s of None \<Rightarrow> s
      | Some sp \<Rightarrow> TrimRightSpace (take (length s - length sp) s))"
  by pat_completeness auto
termination
  by (relation "measure length") (auto dest: trailing_space_shorter)

declare TrimLeftSpace.simps [simp del] TrimRightSpace.simps [simp del]

definition TrimSpace :: "string \<Rightarrow> string" where
  "TrimSpace s = TrimRightSpace (TrimLeftSpace s)"


text \<open>\<^verbatim>\<open>strconv.Itoa\<close>: the decimal digits of an integer, with a minus sign when negative.\<close>

function digits :: "nat \<Rightarrow> string" where
  "digits n = (if n < 10 then [char_of (48 + n)] else digits (n div 10) @ [char_of (48 + n mod 10)])"
  by pat_completeness auto
termination
  by (relation "measure id") auto

declare digits.simps [simp del]

definition Itoa :: "int \<Rightarrow> string" where
  "Itoa i = (if i < 0 then CHR ''-'' # digits (nat (- i)) else digits (nat i))"

section \<open>Batcher (package batch)\<close>

text \<open>
  \<^verbatim>\<open>Batch[T]\<close> holds the pending items and the flush threshold.  Its flush function is a
  callback that acts on something outside the batch (the key-value store, for the room
  batch); the model passes that outside state \<open>'s\<close> through \<^verbatim>\<open>Flush\<close> and \<^verbatim>\<open>Add\<close>.
  The mutex is not modelled: the definitions are the behaviour of one caller at a time.
\<close>

datatype go_panic = MakesliceCapOutOfRange

record 'a Batch =
  data :: "'a list"
  size_n :: int

text \<open>\<^verbatim>\<open>make([]T, 0, size)\<close> panics when the capacity is negative.\<close>

definition New :: "int \<Rightarrow> go_panic + 'a Batch" where
  "New sz = (if sz < 0 then Inl MakesliceCapOutOfRange else Inr \<lparr>data = [], size_n = sz\<rparr>)"

definition Flush :: "('a list \<Rightarrow> 's \<Rightarrow> 's) \<Rightarrow> 'a Batch \<times> 's \<Rightarrow> 'a Batch \<times> 's" where
  "Flush flushfunc bs = (case bs of (b, s) \<Rightarrow> (b\<lparr>data := []\<rparr>, flushfunc (data b) s))"

definition Add :: "('a list \<Rightarrow> 's \<Rightarrow> 's) \<Rightarrow> 'a Batch \<times> 's \<Rightarrow> 'a \<Rightarrow> 'a Batch \<times> 's" where
  "Add flushfunc bs item =
     (case bs of (b, s) \<Rightarrow>
        let b1 = b\<lparr>data := data b @ [item]\<rparr>
        in if int (length (data b1)) \<ge> size_n b1 then Flush flushfunc (b1, s) else (b1, s))"

text \<open>
  A flush function that only records what it is called with: the outside state is the
  list of the slices passed so far.
\<close>

definition record_flush :: "'a list \<Rightarrow> 'a list list \<Rightarrow> 'a list list" where
  "record_flush items calls = calls @ [items]"

section \<open>Search service\<close>

text \<open>
  The bleve queries the service builds.  A match query is created with its text only;
  field and boost are set afterwards.  A boost that was never set is \<open>None\<close> (the engine
  then applies its default), a boost set by \<^verbatim>\<open>SetBoost\<close> is \<open>Some\<close> of the value passed.
  The boosts in the table are small whole numbers, written as \<^typ>\<open>real\<close>s.
\<close>

datatype bleveQuery =
    MatchQuery string string "real option"
  | MatchPhraseQuery string string "real option"
  | BooleanQuery "bleveQuery list" "bleveQuery list" "bleveQuery list"
  | DisjunctionQuery "bleveQuery list"

definition NewMatchQuery :: "string \<Rightarrow> bleveQuery" where
  "NewMatchQuery m = MatchQuery m [] None"

definition NewMatchPhraseQuery :: "string \<Rightarrow> bleveQuery" where
  "NewMatchPhraseQuery m = MatchPhraseQuery m [] None"

definition NewBooleanQuery :: bleveQuery where
  "NewBooleanQuery = BooleanQuery [] [] []"

fun SetField :: "bleveQuery \<Rightarrow> string \<Rightarrow> bleveQuery" where
  "SetField (MatchQuery m f b) field = MatchQuery m field b"
| "SetField (MatchPhraseQuery m f b) field = MatchPhraseQuery m field b"
| "SetField q field = q"

fun SetBoost :: "bleveQuery \<Rightarrow> real \<Rightarrow> bleveQuery" where
  "SetBoost (MatchQuery m f b) boost = MatchQuery m f (Some boost)"
| "SetBoost (MatchPhraseQuery m f b) boost = MatchPhraseQuery m f (Some boost)"
| "SetBoost q boost = q"

fun AddMust :: "bleveQuery \<Rightarrow> bleveQuery \<Rightarrow> bleveQuery" where
  "AddMust (BooleanQuery must should must_not) q = BooleanQuery (must @ [q]) should must_not"
| "AddMust q0 q = q0"

text \<open>
  \<^verbatim>\<open>SearchFieldsBoost\<close> is a Go map from field name to boost; reading a key that is not
  in the map gives the zero value.
\<close>

definition SearchFieldsBoost :: "string \<Rightarrow> real" where
  "SearchFieldsBoost field =
     (if field = ''language'' then 100
      else if field = ''name'' then 10
      else if field = ''server'' then 10
      else if field = ''alias'' then 5
      else 0)"

text \<open>
  The map of extracted fields is an association list with one entry per key (a write
  to a key that is present replaces its value).  Go iterates over a map in no fixed
  order; where the code ranges over the map the model takes the entries in list order,
  and the properties below do not depend on that order.
\<close>

type_synonym fieldmap = "(string \<times> string) list"

definition matchFields_part :: "string list \<times> fieldmap \<Rightarrow> string \<Rightarrow> string list \<times> fieldmap" where
  "matchFields_part acc part =
     (case acc of (toRemove, fields_m) \<Rightarrow>
        if \<not> Contains part '':'' then (toRemove, fields_m)
        else
          let toRemove1 = toRemove @ [part];
              pair = Split (TrimSpace part) CHR '':''
          in if length pair < 2 then (toRemove1, fields_m)
             else (toRemove1, AList.update (TrimSpace (pair ! 0)) (TrimSpace (pair ! 1)) fields_m))"

definition matchFields :: "string \<Rightarrow> string \<times> fieldmap" where
  "matchFields query =
     (if \<not> Contains query '':'' then (query, [])
      else
        let parts = Split query CHR '' '';
            (toRemove, fields_m) = foldl matchFields_part ([], []) parts;
            query1 = foldl (\<lambda>q remove. ReplaceAll q remove []) query toRemove
        in (TrimSpace query1, fields_m))"

definition newMatchQuery :: "string \<Rightarrow> string \<Rightarrow> bool \<Rightarrow> bleveQuery" where
  "newMatchQuery m field phrase =
     (let searchQuery = (if phrase then NewMatchPhraseQuery m else NewMatchQuery m);
          searchQuery1 = SetField searchQuery field
      in SetBoost searchQuery1 (SearchFieldsBoost field))"

definition getSearchQuery :: "string \<Rightarrow> fieldmap \<Rightarrow> bleveQuery" where
  "getSearchQuery q0 fields_m =
     (let q = TrimSpace q0;
          phrase = Contains q '' '';
          queries = [newMatchQuery q ''name'' phrase,
                     newMatchQuery q ''alias'' phrase,
                     newMatchQuery q ''topic'' phrase,
                     newMatchQuery q ''server'' phrase];
          queries1 =
            (if length fields_m > 0
             then queries @
                  [foldl (\<lambda>boolQ (field, fieldQ). AddMust boolQ (newMatchQuery fieldQ field False))
                     NewBooleanQuery fields_m]
             else queries)
      in DisjunctionQuery queries1)"

text \<open>The query that \<^verbatim>\<open>Search\<close> hands to the repository for an input string.\<close>

definition Search_query :: "string \<Rightarrow> bleveQuery" where
  "Search_query query = (case matchFields query of (q, fields_m) \<Rightarrow> getSearchQuery q fields_m)"


section \<open>Rooms, entries, servers and the blocklist (package model)\<close>

record Entry =
  ID :: string
  Type :: string
  Alias :: string
  Name :: string
  Topic :: string
  Avatar :: string
  AvatarURL :: string
  Server :: string
  Members :: int
  Language :: string

record BlocklistService =
  ByID :: "string \<Rightarrow> bool"
  ByServer :: "string \<Rightarrow> bool"

definition Entry_IsBlocked :: "Entry \<Rightarrow> BlocklistService \<Rightarrow> bool" where
  "Entry_IsBlocked r block =
     (if ByID block (ID r) then True
      else if ByID block (Alias r) then True
      else if ByServer block (Server r) then True
      else False)"

text \<open>
  Modelled from the spec: the type \<^verbatim>\<open>model.MatrixRoom\<close> is not among the sources.  The record
  has the attributes the spec lists for a room: id, alias, name, topic, avatar MXC URI,
  HTTPS form of the avatar, origin server, member count and detected language.
\<close>

record MatrixRoom =
  room_id :: string
  room_alias :: string
  room_name :: string
  room_topic :: string
  room_avatar :: string
  room_avatar_url :: string
  room_server :: string
  room_members :: int
  room_language :: string

text \<open>
  Modelled from the spec: the method \<^verbatim>\<open>MatrixRoom.IsBlocked\<close> is not among the sources.  A room
  is blocked if any of its id, its alias or its origin server matches the blocklist
  (as \<^verbatim>\<open>Entry.IsBlocked\<close> above does for an entry).
\<close>

definition IsBlocked :: "MatrixRoom \<Rightarrow> BlocklistService \<Rightarrow> bool" where
  "IsBlocked r block =
     (if ByID block (room_id r) then True
      else if ByID block (room_alias r) then True
      else if ByServer block (room_server r) then True
      else False)"

text \<open>
  Modelled from the spec: the method \<^verbatim>\<open>MatrixRoom.Entry\<close> is not among the sources.  The entry
  of a room is its projection into the index, with a type tag.
\<close>

definition Entry_of :: "MatrixRoom \<Rightarrow> Entry" where
  "Entry_of r =
     \<lparr>ID = room_id r, Type = ''room'', Alias = room_alias r, Name = room_name r,
      Topic = room_topic r, Avatar = room_avatar r, AvatarURL = room_avatar_url r,
      Server = room_server r, Members = room_members r, Language = room_language r\<rparr>"

text \<open>
  Modelled from the spec: the type \<^verbatim>\<open>model.MatrixServerContacts\<close> is not among the sources.  Its
  fields are those \<^verbatim>\<open>getServerContacts\<close> sets: emails, matrix ids and the support URL.
\<close>

record MatrixServerContacts =
  Emails :: "string list"
  MXIDs :: "string list"
  URL :: string

text \<open>
  Modelled from the spec: the type \<^verbatim>\<open>model.MatrixServer\<close> is not among the sources.  The record
  has the attributes the spec lists for a server: name, federation base URL, online
  flag, indexable flag, time of the last update and contacts.  A time is a number; the
  model never computes with it.
\<close>

record MatrixServer =
  srv_Name :: string
  srv_URL :: string
  srv_Online :: bool
  srv_Indexable :: bool
  srv_UpdatedAt :: nat
  srv_Contacts :: MatrixServerContacts

section \<open>Key-value store (package data)\<close>

text \<open>
  The buckets are association lists with one entry per key.  \<open>rb\<close> is the room batch
  created in \<^verbatim>\<open>data.New\<close> with size 10000; its flush function \<open>store_rooms\<close> puts every
  room of the slice into the rooms bucket under its id.  \<^verbatim>\<open>Put\<close> refuses an empty key and
  a key of more than 32768 bytes; the flush function logs that and goes on.
\<close>

record Data =
  servers_b :: "(string \<times> string) list"
  servers_info_b :: "(string \<times> MatrixServer) list"
  rooms_b :: "(string \<times> MatrixRoom) list"
  rb :: "MatrixRoom Batch"


text \<open>
  The methods of the repository behind the \<^verbatim>\<open>DataRepository\<close> interface are not among the
  sources (only \<^verbatim>\<open>data.New\<close> and the buckets are); each is modelled from the spec below.  A
  write to the store succeeds: failures of the disk are outside the model, so the
  error a method returns is \<open>None\<close>.
\<close>

text \<open>
  Modelled from the spec: \<^verbatim>\<open>Data.AddServer\<close> is not among the sources.  It writes the base URL
  to the bucket \<open>servers\<close> and the server record to the bucket \<open>servers_info\<close>, under the name.
\<close>

definition AddServer :: "Data \<Rightarrow> MatrixServer \<Rightarrow> string option \<times> Data" where
  "AddServer d server =
     (None, d\<lparr>servers_b := AList.update (srv_Name server) (srv_URL server) (servers_b d),
              servers_info_b := AList.update (srv_Name server) server (servers_info_b d)\<rparr>)"

text \<open>
  Modelled from the spec: \<^verbatim>\<open>Data.GetServer\<close> is not among the sources.  It returns the URL
  stored for the name, the empty string when there is none.
\<close>

definition GetServer :: "Data \<Rightarrow> string \<Rightarrow> string \<times> string option" where
  "GetServer d name = (case map_of (servers_b d) name of None \<Rightarrow> ([], None) | Some u \<Rightarrow> (u, None))"

text \<open>
  Modelled from the spec: \<^verbatim>\<open>Data.RemoveServer\<close> is not among the sources.  It removes the name
  from both server buckets.
\<close>

definition RemoveServer :: "Data \<Rightarrow> string \<Rightarrow> string option \<times> Data" where
  "RemoveServer d name =
     (None, d\<lparr>servers_b := AList.delete name (servers_b d),
              servers_info_b := AList.delete name (servers_info_b d)\<rparr>)"

text \<open>
  Modelled from the spec: \<^verbatim>\<open>Data.AllServers\<close> is not among the sources.  It returns the map
  from name to URL.
\<close>

definition AllServers :: "Data \<Rightarrow> (string \<times> string) list" where
  "AllServers d = servers_b d"


text \<open>
  Modelled from the spec: \<^verbatim>\<open>Data.EachRoom\<close> is not among the sources.  It calls the handler for
  every stored room, in the order of the keys; the handler acts on a state \<open>'s\<close> of the
  caller's (a closure in the source).
\<close>

definition Data_EachRoom :: "Data \<Rightarrow> (string \<Rightarrow> MatrixRoom \<Rightarrow> 's \<Rightarrow> 's) \<Rightarrow> 's \<Rightarrow> 's" where
  "Data_EachRoom d handler s = foldl (\<lambda>s1 (roomID, room). handler roomID room s1) s (rooms_b d)"

text \<open>
  Modelled from the spec: \<^verbatim>\<open>Data.RemoveRooms\<close> is not among the sources.  It removes the given
  ids from the rooms bucket.
\<close>

definition RemoveRooms :: "Data \<Rightarrow> string list \<Rightarrow> Data" where
  "RemoveRooms d keys = d\<lparr>rooms_b := foldl (\<lambda>b k. AList.delete k b) (rooms_b d) keys\<rparr>"

text \<open>
  Modelled from the spec: \<^verbatim>\<open>utils.MapKeys\<close> is not among the sources.  The keys of a map.
\<close>

definition MapKeys :: "('k \<times> 'v) list \<Rightarrow> 'k list" where
  "MapKeys m = map fst m"

text \<open>
  Modelled from the spec: \<^verbatim>\<open>utils.MergeSlices\<close> is not among the sources.  The union of two
  slices, without duplicates.
\<close>

definition MergeSlices :: "'a list \<Rightarrow> 'a list \<Rightarrow> 'a list" where
  "MergeSlices xs ys = remdups (xs @ ys)"

text \<open>
  Modelled from the spec: \<^verbatim>\<open>utils.Uniq\<close> is not among the sources.  A slice without its
  duplicates.
\<close>

definition Uniq :: "'a list \<Rightarrow> 'a list" where
  "Uniq xs = remdups xs"

section \<open>Index service\<close>

text \<open>
  A bleve batch holds the documents to index by id: \<^verbatim>\<open>Index\<close> of an id that is in the batch
  replaces its document, \<^verbatim>\<open>Size\<close> is the number of documents, \<^verbatim>\<open>Reset\<close> empties the batch.  The
  engine's own failures are outside the model.
\<close>

type_synonym bleve_Batch = "(string \<times> Entry) list"

definition batch_Index :: "bleve_Batch \<Rightarrow> string \<Rightarrow> Entry \<Rightarrow> bleve_Batch" where
  "batch_Index b docID e = AList.update docID e b"

definition batch_Size :: "bleve_Batch \<Rightarrow> int" where
  "batch_Size b = int (length b)"

definition batch_Reset :: "bleve_Batch \<Rightarrow> bleve_Batch" where
  "batch_Reset b = []"

text \<open>
  Modelled from the spec: the repository behind the \<^verbatim>\<open>IndexRepository\<close> interface is not among
  the sources.  The index holds one entry per room id; \<^verbatim>\<open>Swap\<close> puts a new empty index in
  the place of the live one.
\<close>

definition repo_Swap :: "(string \<times> Entry) list \<Rightarrow> (string \<times> Entry) list" where
  "repo_Swap idx = []"

text \<open>
  Modelled from the spec: \<^verbatim>\<open>IndexRepository.IndexBatch\<close> is not among the sources.  It submits
  the batch to the index: every document of the batch is indexed under its id.
\<close>

definition repo_IndexBatch :: "(string \<times> Entry) list \<Rightarrow> bleve_Batch \<Rightarrow> (string \<times> Entry) list" where
  "repo_IndexBatch idx b = foldl (\<lambda>idx1 (k, e). AList.update k e idx1) idx b"

text \<open>
  The index service: the repository's index, the batch in progress and the configured
  threshold \<^verbatim>\<open>cfg.Get().Batch.Rooms\<close>.
\<close>

record Index =
  index :: "(string \<times> Entry) list"
  batch :: bleve_Batch
  Batch_Rooms :: int

definition EmptyIndex :: "Index \<Rightarrow> Index" where
  "EmptyIndex i = i\<lparr>index := repo_Swap (index i)\<rparr>"

definition IndexBatch :: "Index \<Rightarrow> Index" where
  "IndexBatch i = i\<lparr>index := repo_IndexBatch (index i) (batch i), batch := batch_Reset (batch i)\<rparr>"

definition RoomsBatch :: "Index \<Rightarrow> string \<Rightarrow> Entry \<Rightarrow> Index" where
  "RoomsBatch i roomID e =
     (if batch_Size (batch i) \<ge> Batch_Rooms i then IndexBatch i
      else i\<lparr>batch := batch_Index (batch i) roomID e\<rparr>)"

text \<open>
  Modelled from the spec: \<^verbatim>\<open>Index.Len\<close> is not among the sources.  It passes the number of
  entries of the index through.
\<close>

definition Len :: "Index \<Rightarrow> nat" where
  "Len i = length (index i)"

section \<open>Matrix service (crawler)\<close>

record Matrix =
  servers :: "string list"
  proxyURL :: string
  proxyToken :: string
  publicURL :: string
  parsing :: bool
  discovering :: bool
  eachrooming :: bool
  m_data :: Data

text \<open>
  What the network answers.  A call either fails or returns a status code and a body;
  a body is unreadable, or is not the expected JSON, or decodes to a value.  (A body
  that is the JSON literal \<^verbatim>\<open>null\<close> is not modelled.)  \<open>publicRooms_call name limit since\<close> is the
  request \<^verbatim>\<open>/_matrix/client/v3/publicRooms?server=name&limit=limit[&since=since]\<close> to the
  proxy; \<open>msc1929_Get\<close> is the MSC1929 lookup of the library of that name, \<open>None\<close> when it
  fails, and otherwise what the response's \<^verbatim>\<open>IsEmpty()\<close>, \<^verbatim>\<open>Emails()\<close>, \<^verbatim>\<open>MatrixIDs()\<close> and
  \<^verbatim>\<open>SupportPage\<close> give; \<open>now\<close> is the clock.
\<close>

datatype 'a http_body = ReadError | UnmarshalError | Decoded 'a

datatype 'a http_result = CallError string | Response nat "'a http_body"

record matrixRoomsResp =
  Chunk :: "MatrixRoom list"
  NextBatch :: string
  Total :: int

record msc1929_Response =
  resp_IsEmpty :: bool
  resp_Emails :: "string list"
  resp_MatrixIDs :: "string list"
  resp_SupportPage :: string

record World =
  publicRooms_call :: "string \<Rightarrow> string \<Rightarrow> string \<Rightarrow> matrixRoomsResp http_result"
  msc1929_Get :: "string \<Rightarrow> msc1929_Response option"
  now :: nat

definition getPublicRoomsPage :: "World \<Rightarrow> string \<Rightarrow> string \<Rightarrow> string \<Rightarrow> matrixRoomsResp option" where
  "getPublicRoomsPage w name limit since =
     (case publicRooms_call w name limit since of
        CallError e \<Rightarrow> None
      | Response status body \<Rightarrow>
          if status \<noteq> 200 then None
          else (case body of
                  ReadError \<Rightarrow> None
                | UnmarshalError \<Rightarrow> None
                | Decoded roomsResp \<Rightarrow> Some roomsResp))"

definition validateDiscoveredServer :: "World \<Rightarrow> string \<Rightarrow> bool" where
  "validateDiscoveredServer w name = (getPublicRoomsPage w name ''1'' [] \<noteq> None)"

definition getServerContacts :: "World \<Rightarrow> string \<Rightarrow> MatrixServerContacts option" where
  "getServerContacts w name =
     (case msc1929_Get w name of
        None \<Rightarrow> None
      | Some resp \<Rightarrow>
          if resp_IsEmpty resp then None
          else Some \<lparr>Emails = Uniq (resp_Emails resp), MXIDs = Uniq (resp_MatrixIDs resp),
                     URL = resp_SupportPage resp\<rparr>)"

definition discoverServer :: "World \<Rightarrow> BlocklistService \<Rightarrow> Matrix \<Rightarrow> string \<Rightarrow> string option \<times> Matrix" where
  "discoverServer w block m name =
     (if ByServer block name
      then (case RemoveServer (m_data m) name of (err, d) \<Rightarrow> (err, m\<lparr>m_data := d\<rparr>))
      else
        let (existingURL, _) = GetServer (m_data m) name
        in if existingURL \<noteq> [] then (None, m)
           else
             let server = \<lparr>srv_Name = name, srv_URL = [], srv_Online = True, srv_Indexable = False,
                           srv_UpdatedAt = now w,
                           srv_Contacts = \<lparr>Emails = [], MXIDs = [], URL = []\<rparr>\<rparr>;
                 server1 = (case getServerContacts w name of
                              Some contacts \<Rightarrow> server\<lparr>srv_Contacts := contacts\<rparr>
                            | None \<Rightarrow> server)
             in if \<not> validateDiscoveredServer w name
                then (case AddServer (m_data m) (server1\<lparr>srv_Online := False\<rparr>) of
                        (err, d) \<Rightarrow> (err, m\<lparr>m_data := d\<rparr>))
                else (case AddServer (m_data m) server1 of (err, d) \<Rightarrow> (err, m\<lparr>m_data := d\<rparr>)))"

text \<open>
  \<^verbatim>\<open>DiscoverServers\<close> removes the blocked names itself and hands every other name to the
  worker pool.  The tasks of the pool act on different names, and a task changes the
  store under its own name only, so the model runs them one after the other in the
  order of the loop.  No task fails (the store's writes succeed), so \<^verbatim>\<open>wp.Wait()\<close> returns
  no error.
\<close>

definition DiscoverServers_step :: "World \<Rightarrow> BlocklistService \<Rightarrow> Matrix \<Rightarrow> string \<Rightarrow> Matrix" where
  "DiscoverServers_step w block m name =
     (if ByServer block name
      then (case RemoveServer (m_data m) name of (err, d) \<Rightarrow> m\<lparr>m_data := d\<rparr>)
      else snd (discoverServer w block m name))"

definition DiscoverServers :: "World \<Rightarrow> BlocklistService \<Rightarrow> Matrix \<Rightarrow> string option \<times> Matrix" where
  "DiscoverServers w block m =
     (if discovering m then (None, m)
      else
        let m1 = m\<lparr>discovering := True\<rparr>;
            dataservers = MapKeys (AllServers (m_data m1));
            servers1 = MergeSlices dataservers (servers m1);
            m2 = foldl (DiscoverServers_step w block) m1 servers1
        in (None, m2\<lparr>discovering := False\<rparr>))"

text \<open>
  \<^verbatim>\<open>EachRoom\<close>: the handler acts on a state \<open>'s\<close> of the caller's (a closure in the source).
\<close>

definition EachRoom ::
  "BlocklistService \<Rightarrow> Matrix \<Rightarrow> (string \<Rightarrow> MatrixRoom \<Rightarrow> 's \<Rightarrow> 's) \<Rightarrow> 's \<Rightarrow> Matrix \<times> 's" where
  "EachRoom block m handler s =
     (if eachrooming m then (m, s)
      else
        let m1 = m\<lparr>eachrooming := True\<rparr>;
            (toRemove, s1) =
              Data_EachRoom (m_data m1)
                (\<lambda>id room (toRemove, s0).
                   if IsBlocked room block then (toRemove @ [id], s0)
                   else (toRemove, handler id room s0))
                ([], s);
            m2 = m1\<lparr>m_data := RemoveRooms (m_data m1) toRemove\<rparr>
        in (m2\<lparr>eachrooming := False\<rparr>, s1))"

definition matrixMediaFallbacks :: "string list" where
  "matrixMediaFallbacks = [''https://matrix-client.matrix.org'']"

definition getMediaURLs :: "Matrix \<Rightarrow> string \<Rightarrow> string \<Rightarrow> string list" where
  "getMediaURLs m serverName mediaID =
     (let urls = map (\<lambda>serverURL. serverURL @ ''/_matrix/media/v3/download/'' @ serverName @ ''/'' @ mediaID)
                   matrixMediaFallbacks;
          (serverURL, err) = GetServer (m_data m) serverName
      in if err \<noteq> None \<and> serverURL \<noteq> []
         then urls @ [serverURL @ ''/_matrix/media/v3/download/'' @ serverName @ ''/'' @ mediaID]
         else urls)"









section \<open>Data facade\<close>

text \<open>
  \<^verbatim>\<open>Ingest\<close> also stamps the indexing phase, collects the statistics and purges the cache;
  none of these touches the index or the stored rooms, and they are left out.
\<close>

record DataFacade =
  matrix :: Matrix
  index_svc :: Index

definition Ingest :: "BlocklistService \<Rightarrow> DataFacade \<Rightarrow> DataFacade" where
  "Ingest block df =
     (let (m, i) = EachRoom block (matrix df)
                     (\<lambda>roomID room i0. RoomsBatch i0 roomID (Entry_of room)) (index_svc df);
          i1 = IndexBatch i
      in \<lparr>matrix = m, index_svc = i1\<rparr>)"


section \<open>Federation endpoint resolver (package matrix)\<close>









section \<open>Cache middleware\<close>

text \<open>
  A header maps a canonical key to its values.  \<^verbatim>\<open>Get\<close> and \<^verbatim>\<open>Set\<close> bring the key they are
  given into the canonical form first (\<^verbatim>\<open>textproto.CanonicalMIMEHeaderKey\<close>: the first
  letter and every letter after a hyphen in upper case, the others in lower case, if
  the key consists of token characters; otherwise the key as it is).
\<close>

type_synonym header = "(string \<times> string list) list"

definition validHeaderFieldByte :: "char \<Rightarrow> bool" where
  "validHeaderFieldByte c =
     (let n = (of_char c :: nat)
      in (48 \<le> n \<and> n \<le> 57) \<or> (65 \<le> n \<and> n \<le> 90) \<or> (97 \<le> n \<and> n \<le> 122) \<or>
         n \<in> {33, 35, 36, 37, 38, 39, 42, 43, 45, 46, 94, 95, 96, 124, 126})"

fun canonical :: "bool \<Rightarrow> string \<Rightarrow> string" where
  "canonical upper [] = []"
| "canonical upper (c # cs) =
     (let n = (of_char c :: nat);
          c1 = (if upper \<and> 97 \<le> n \<and> n \<le> 122 then char_of (n - 32)
                else if \<not> upper \<and> 65 \<le> n \<and> n \<le> 90 then char_of (n + 32)
                else c)
      in c1 # canonical (c1 = CHR ''-'') cs)"

definition CanonicalMIMEHeaderKey :: "string \<Rightarrow> string" where
  "CanonicalMIMEHeaderKey s = (if list_all validHeaderFieldByte s then canonical True s else s)"

definition Header_Get :: "header \<Rightarrow> string \<Rightarrow> string" where
  "Header_Get h key =
     (case map_of h (CanonicalMIMEHeaderKey key) of
        None \<Rightarrow> []
      | Some vs \<Rightarrow> (case vs of [] \<Rightarrow> [] | v # _ \<Rightarrow> v))"

definition Header_Set :: "header \<Rightarrow> string \<Rightarrow> string \<Rightarrow> header" where
  "Header_Set h key v = AList.update (CanonicalMIMEHeaderKey key) [v] h"

record Request =
  Method :: string
  URL_Path :: string
  Header :: header

text \<open>
  \<open>MaxAge\<close> is \<^verbatim>\<open>cfg.Get().Cache.MaxAge\<close> and \<open>Indexing_FinishedAt\<close> is
  \<^verbatim>\<open>stats.Get().Indexing.FinishedAt\<close>.  The middleware either answers itself
  (\<^verbatim>\<open>c.NoContent(status)\<close>: a status and no body) or calls the next handler; in both cases
  the model gives the response header as the middleware leaves it.  \<open>Format\<close> stands for
  \<^verbatim>\<open>Time.Format(http.TimeFormat)\<close>.
\<close>

record Cache =
  MaxAge :: int
  Indexing_FinishedAt :: nat

datatype handled = NoContent nat header | Next header

definition noncacheablePaths :: "string list" where
  "noncacheablePaths = [''/search'', ''/_matrix/federation/v1/publicRooms'']"

definition Middleware :: "(nat \<Rightarrow> string) \<Rightarrow> Cache \<Rightarrow> Request \<Rightarrow> header \<Rightarrow> handled" where
  "Middleware Format cache req resp =
     (if Method req \<noteq> ''GET'' then Next resp
      else
        let noncacheable = (URL_Path req \<in> set noncacheablePaths)
        in if noncacheable then Next (Header_Set resp ''Cache-Control'' ''no-cache'')
           else
             let lastModified = Format (Indexing_FinishedAt cache);
                 ifModifiedSince = Header_Get (Header req) ''if-modified-since''
             in if lastModified = ifModifiedSince then NoContent 304 resp
                else
                  let maxAge = Itoa (MaxAge cache);
                      resp1 = Header_Set resp ''Cache-Control'' (''max-age='' @ maxAge @ '', public'');
                      resp2 = Header_Set resp1 ''CDN-Tag'' ''mutable'';
                      resp3 = Header_Set resp2 ''Last-Modified'' lastModified
                  in Next resp3)"

chapter \<open>Properties\<close>

section \<open>Flushes of the batcher\<close>

lemma Add_below:
  "int (length (data b)) + 1 < size_n b \<Longrightarrow> Add f (b, s) x = (b\<lparr>data := data b @ [x]\<rparr>, s)"
  by (simp add: Add_def Let_def)

lemma Add_fill:
  "int (length (data b)) + 1 = size_n b \<Longrightarrow> Add f (b, s) x = (b\<lparr>data := []\<rparr>, f (data b @ [x]) s)"
  by (simp add: Add_def Let_def Flush_def)

lemma foldl_Add_below:
  "int (length (data b)) + int (length xs) < size_n b \<Longrightarrow>
   foldl (Add f) (b, s) xs = (b\<lparr>data := data b @ xs\<rparr>, s)"
proof (induction xs arbitrary: b)
  case Nil
  then show ?case by simp
next
  case (Cons x xs)
  let ?b1 = "b\<lparr>data := data b @ [x]\<rparr>"
  from Cons.prems have step: "Add f (b, s) x = (?b1, s)"
    by (simp add: Add_below)
  from Cons.prems have "int (length (data ?b1)) + int (length xs) < size_n ?b1"
    by simp
  from Cons.IH [OF this] show ?case
    by (simp add: step)
qed

lemma foldl_Add_fill:
  assumes "int (length (data b)) + int (length xs) = size_n b" and "xs \<noteq> []"
  shows "foldl (Add f) (b, s) xs = (b\<lparr>data := []\<rparr>, f (data b @ xs) s)"
proof -
  from assms(2) obtain ys y where xs: "xs = ys @ [y]"
    by (metis rev_exhaust)
  with assms(1) have "int (length (data b)) + int (length ys) < size_n b"
    by simp
  then have pre: "foldl (Add f) (b, s) ys = (b\<lparr>data := data b @ ys\<rparr>, s)"
    by (rule foldl_Add_below)
  have "int (length (data (b\<lparr>data := data b @ ys\<rparr>))) + 1 = size_n (b\<lparr>data := data b @ ys\<rparr>)"
    using assms(1) by (simp add: xs)
  from Add_fill [OF this, of f s y] show ?thesis
    by (simp add: xs pre)
qed

text \<open>
  C6 (as amended).  For a batcher created with a size \<open>n \<ge> 1\<close>, adding exactly \<open>2n\<close>
  items passes every item to the flush function exactly once, in two non-empty flushes
  of \<open>n\<close> items each, and both of them are triggered by \<^verbatim>\<open>Add\<close> (by the \<open>n\<close>-th and by the
  \<open>2n\<close>-th item): after the last \<^verbatim>\<open>Add\<close> the batch is empty again.  The explicit \<^verbatim>\<open>Flush()\<close>
  that follows invokes the flush function a third time, with an empty slice.
\<close>

theorem batch_2n_items_flushes:
  assumes "0 < n" and "length xs = 2 * nat n" and "New n = Inr b0"
  shows "foldl (Add f) (b0, s) xs = (b0, f (drop (nat n) xs) (f (take (nat n) xs) s))
       \<and> Flush f (foldl (Add f) (b0, s) xs)
           = (b0, f [] (f (drop (nat n) xs) (f (take (nat n) xs) s)))
       \<and> snd (Flush record_flush (foldl (Add record_flush) (b0, []) xs))
           = [take (nat n) xs, drop (nat n) xs, []]
       \<and> take (nat n) xs \<noteq> [] \<and> drop (nat n) xs \<noteq> []
       \<and> take (nat n) xs @ drop (nat n) xs = xs"
proof -
  let ?xs1 = "take (nat n) xs" and ?xs2 = "drop (nat n) xs"
  from assms(1,3) have b0: "b0 = \<lparr>data = [], size_n = n\<rparr>"
    by (simp add: New_def)
  from assms(1,2) have len1: "int (length ?xs1) = n" and len2: "int (length ?xs2) = n"
    by auto
  from assms(1) len1 len2 have ne: "?xs1 \<noteq> []" "?xs2 \<noteq> []"
    by auto
  have adds: "foldl (Add g) (b0, t) xs = (b0, g ?xs2 (g ?xs1 t))" for g :: "'a list \<Rightarrow> 'c \<Rightarrow> 'c" and t
  proof -
    have "int (length (data b0)) + int (length ?xs1) = size_n b0"
      using len1 by (simp add: b0)
    from foldl_Add_fill [OF this ne(1), of g t]
    have first: "foldl (Add g) (b0, t) ?xs1 = (b0, g ?xs1 t)"
      by (simp add: b0)
    have "int (length (data b0)) + int (length ?xs2) = size_n b0"
      using len2 by (simp add: b0)
    from foldl_Add_fill [OF this ne(2), of g "g ?xs1 t"]
    have second: "foldl (Add g) (b0, g ?xs1 t) ?xs2 = (b0, g ?xs2 (g ?xs1 t))"
      by (simp add: b0)
    have "foldl (Add g) (b0, t) xs = foldl (Add g) (foldl (Add g) (b0, t) ?xs1) ?xs2"
      by (simp flip: foldl_append)
    then show ?thesis
      by (simp add: first second)
  qed
  have flush: "Flush g (b0, t) = (b0, g [] t)" for g :: "'a list \<Rightarrow> 'c \<Rightarrow> 'c" and t
    by (simp add: Flush_def b0)
  show ?thesis
    using ne by (simp add: adds flush record_flush_def)
qed

theorem batch_2n_items_flushes_witness:
  "snd (Flush record_flush
         (foldl (Add record_flush) (\<lparr>data = [], size_n = 2\<rparr>, []) [''r1'', ''r2'', ''r3'', ''r4'']))
     = [[''r1'', ''r2''], [''r3'', ''r4''], []]"
proof -
  have n: "(0::int) < 2" and len: "length [''r1'', ''r2'', ''r3'', ''r4''] = 2 * nat 2"
    and new: "New 2 = Inr \<lparr>data = [] :: string list, size_n = 2\<rparr>"
    by (simp_all add: New_def)
  note w = batch_2n_items_flushes [OF n len new, where f = record_flush and s = "[]"]
  from w [THEN conjunct2, THEN conjunct2, THEN conjunct1] show ?thesis
    by simp
qed

text \<open>
  C6 (as stated) fails: with size 1 and the two items \<open>a\<close> and \<open>b\<close>, both non-empty flushes
  have happened when the second \<^verbatim>\<open>Add\<close> returns (the batch is empty by then), and the
  explicit \<^verbatim>\<open>Flush()\<close> passes the empty slice, as a third call of the flush function.
  With size 0 there are no items to add, and the only flush is the empty one of the
  explicit call.
\<close>

theorem batch_explicit_flush_counterexample:
  "New 1 = Inr \<lparr>data = [] :: string list, size_n = 1\<rparr>
   \<and> foldl (Add record_flush) (\<lparr>data = [], size_n = 1\<rparr>, []) [''a'', ''b'']
       = (\<lparr>data = [], size_n = 1\<rparr>, [[''a''], [''b'']])
   \<and> Flush record_flush (\<lparr>data = [], size_n = 1\<rparr>, [[''a''], [''b'']])
       = (\<lparr>data = [], size_n = 1\<rparr>, [[''a''], [''b''], []])
   \<and> New 0 = Inr \<lparr>data = [] :: string list, size_n = 0\<rparr>
   \<and> Flush record_flush (foldl (Add record_flush) (\<lparr>data = [] :: string list, size_n = 0\<rparr>, []) [])
       = (\<lparr>data = [], size_n = 0\<rparr>, [[]])"
  by (simp add: New_def Add_def Flush_def record_flush_def Let_def)

section \<open>Ingest into the index\<close>

lemma IsBlocked_as_Entry: "IsBlocked r block = Entry_IsBlocked (Entry_of r) block"
  by (simp add: IsBlocked_def Entry_IsBlocked_def Entry_of_def)

text \<open>
  C1 (the code departs from the claim).  The threshold is 2, nothing is blocked and the
  store holds the three rooms \<open>!a\<close>, \<open>!b\<close> and \<open>!c\<close>.  After \<^verbatim>\<open>EmptyIndex\<close> and \<^verbatim>\<open>Ingest\<close> the sweep
  has passed three rooms to \<^verbatim>\<open>RoomsBatch\<close>, but the index holds two: the call for \<open>!c\<close> finds
  the batch full, submits it and returns without adding \<open>!c\<close> to any batch.
\<close>

theorem ingest_drops_room_at_full_batch:
  "(let block = \<lparr>ByID = (\<lambda>x. False), ByServer = (\<lambda>x. False)\<rparr>;
        room = (\<lambda>rid. \<lparr>room_id = rid, room_alias = [], room_name = ''room'', room_topic = [],
                         room_avatar = [], room_avatar_url = [], room_server = ''example.org'',
                         room_members = 1, room_language = ''EN''\<rparr>);
        rooms = [(''!a'', room ''!a''), (''!b'', room ''!b''), (''!c'', room ''!c'')];
        m = \<lparr>servers = [], proxyURL = [], proxyToken = [], publicURL = [], parsing = False,
             discovering = False, eachrooming = False,
             m_data = \<lparr>servers_b = [], servers_info_b = [], rooms_b = rooms,
                       rb = \<lparr>data = [], size_n = 10000\<rparr>\<rparr>\<rparr>;
        i = \<lparr>index = [], batch = [], Batch_Rooms = 2\<rparr>;
        df = Ingest block \<lparr>matrix = m, index_svc = EmptyIndex i\<rparr>
    in length (filter (\<lambda>(rid, r). \<not> IsBlocked r block) rooms) = 3
       \<and> Len (index_svc df) = 2
       \<and> map fst (index (index_svc df)) = [''!a'', ''!b'']
       \<and> batch (index_svc df) = [])"
  by (simp add: Ingest_def EachRoom_def Data_EachRoom_def RemoveRooms_def RoomsBatch_def
        IndexBatch_def EmptyIndex_def Len_def repo_Swap_def repo_IndexBatch_def batch_Index_def
        batch_Size_def batch_Reset_def IsBlocked_def Entry_of_def Let_def)

lemma update_absent: "k \<notin> fst ` set al \<Longrightarrow> AList.update k v al = al @ [(k, v)]"
  by (induction al) auto

lemma repo_IndexBatch_distinct:
  "distinct (map fst (idx @ b)) \<Longrightarrow> repo_IndexBatch idx b = idx @ b"
proof (induction b arbitrary: idx)
  case Nil
  then show ?case by (simp add: repo_IndexBatch_def)
next
  case (Cons p b)
  obtain k e where p: "p = (k, e)" by (cases p)
  from Cons.prems have absent: "k \<notin> fst ` set idx"
    by (auto simp: p)
  from Cons.prems have "distinct (map fst ((idx @ [(k, e)]) @ b))"
    by (simp add: p)
  from Cons.IH [OF this] have "repo_IndexBatch (idx @ [(k, e)]) b = idx @ (k, e) # b"
    by simp
  then show ?case
    by (simp add: repo_IndexBatch_def p update_absent [OF absent])
qed

text \<open>
  The sweep of \<^verbatim>\<open>Ingest\<close> over rooms with different ids, while the batch has room for all
  of them: every room that is not blocked is added to the batch, in order.
\<close>

lemma sweep_below_threshold:
  assumes F: "\<And>toRemove s0 rid room.
      F (toRemove, s0) (rid, room) =
        (if IsBlocked room block then (toRemove @ [rid], s0)
         else (toRemove, RoomsBatch s0 rid (Entry_of room)))"
  shows "distinct (map fst rooms) \<Longrightarrow>
         fst ` set (batch i) \<inter> fst ` set rooms = {} \<Longrightarrow>
         int (length (batch i)) + int (length (filter (\<lambda>(rid, room). \<not> IsBlocked room block) rooms))
           \<le> Batch_Rooms i \<Longrightarrow>
         snd (foldl F (toRemove, i) rooms)
           = i\<lparr>batch := batch i @ map (\<lambda>(rid, room). (rid, Entry_of room))
                                     (filter (\<lambda>(rid, room). \<not> IsBlocked room block) rooms)\<rparr>"
proof (induction rooms arbitrary: toRemove i)
  case Nil
  then show ?case by simp
next
  case (Cons p rooms)
  obtain rid room where p: "p = (rid, room)" by (cases p)
  from Cons.prems(1) have dist: "distinct (map fst rooms)" and fresh: "rid \<notin> fst ` set rooms"
    by (auto simp: p)
  show ?case
  proof (cases "IsBlocked room block")
    case True
    from Cons.prems(2) have "fst ` set (batch i) \<inter> fst ` set rooms = {}"
      by auto
    moreover from Cons.prems(3) True
    have "int (length (batch i))
            + int (length (filter (\<lambda>(rid, room). \<not> IsBlocked room block) rooms)) \<le> Batch_Rooms i"
      by (simp add: p)
    ultimately show ?thesis
      using Cons.IH [OF dist, of i "toRemove @ [rid]"] True by (simp add: p F)
  next
    case False
    let ?i1 = "i\<lparr>batch := batch i @ [(rid, Entry_of room)]\<rparr>"
    from Cons.prems(2) have absent: "rid \<notin> fst ` set (batch i)"
      by (auto simp: p)
    from Cons.prems(3) False have room_left: "int (length (batch i)) < Batch_Rooms i"
      by (simp add: p)
    then have step: "RoomsBatch i rid (Entry_of room) = ?i1"
      by (simp add: RoomsBatch_def batch_Size_def batch_Index_def update_absent [OF absent])
    from Cons.prems(2) fresh have "fst ` set (batch ?i1) \<inter> fst ` set rooms = {}"
      by (auto simp: p)
    moreover from Cons.prems(3) False
    have "int (length (batch ?i1))
            + int (length (filter (\<lambda>(rid, room). \<not> IsBlocked room block) rooms)) \<le> Batch_Rooms ?i1"
      by (simp add: p)
    ultimately show ?thesis
      using Cons.IH [OF dist, of ?i1 toRemove] False by (simp add: p F step)
  qed
qed

text \<open>
  The other side of the example above: when the rooms that are not blocked are at most
  as many as the threshold, no call of \<^verbatim>\<open>RoomsBatch\<close> finds the batch full, and \<^verbatim>\<open>Ingest\<close> after
  \<^verbatim>\<open>EmptyIndex\<close> indexes every one of them: the length of the index is their number.  (The
  stored rooms have different ids, as the keys of a bucket do; no other sweep is in
  progress; the batch is empty at the start.)
\<close>

theorem ingest_complete_below_threshold:
  assumes "\<not> eachrooming m" and "distinct (map fst (rooms_b (m_data m)))" and "batch i = []"
    and "int (length (filter (\<lambda>(rid, room). \<not> IsBlocked room block) (rooms_b (m_data m))))
           \<le> Batch_Rooms i"
  shows "Len (index_svc (Ingest block \<lparr>matrix = m, index_svc = EmptyIndex i\<rparr>))
           = length (filter (\<lambda>(rid, room). \<not> IsBlocked room block) (rooms_b (m_data m)))
       \<and> map fst (index (index_svc (Ingest block \<lparr>matrix = m, index_svc = EmptyIndex i\<rparr>)))
           = map fst (filter (\<lambda>(rid, room). \<not> IsBlocked room block) (rooms_b (m_data m)))"
proof -
  let ?rooms = "rooms_b (m_data m)"
  let ?kept = "filter (\<lambda>(rid, room). \<not> IsBlocked room block) ?rooms"
  let ?F = "\<lambda>s1 (roomID, room).
              (case s1 of (toRemove, s0) \<Rightarrow>
                 if IsBlocked room block then (toRemove @ [roomID], s0)
                 else (toRemove, RoomsBatch s0 roomID (Entry_of room)))"
  let ?i0 = "EmptyIndex i"
  have i0: "batch ?i0 = []" "index ?i0 = []" "Batch_Rooms ?i0 = Batch_Rooms i"
    by (simp_all add: EmptyIndex_def repo_Swap_def assms(3))
  have "snd (foldl ?F ([], ?i0) ?rooms)
          = ?i0\<lparr>batch := batch ?i0 @ map (\<lambda>(rid, room). (rid, Entry_of room)) ?kept\<rparr>"
    by (rule sweep_below_threshold) (simp_all add: assms i0)
  then have sweep: "snd (foldl ?F ([], ?i0) ?rooms)
          = ?i0\<lparr>batch := map (\<lambda>(rid, room). (rid, Entry_of room)) ?kept\<rparr>"
    by (simp add: i0)
  have keys: "map fst (map (\<lambda>(rid, room). (rid, Entry_of room)) ?kept) = map fst ?kept"
    by (simp add: case_prod_beta)
  from assms(2) have "distinct (map fst ?kept)"
    by (simp add: distinct_map_filter)
  then have "distinct (map fst ([] @ map (\<lambda>(rid, room). (rid, Entry_of room)) ?kept))"
    by (simp only: append_Nil keys)
  from repo_IndexBatch_distinct [OF this]
  have indexed: "repo_IndexBatch [] (map (\<lambda>(rid, room). (rid, Entry_of room)) ?kept)
                   = map (\<lambda>(rid, room). (rid, Entry_of room)) ?kept"
    by simp
  have "index (index_svc (Ingest block \<lparr>matrix = m, index_svc = ?i0\<rparr>))
          = map (\<lambda>(rid, room). (rid, Entry_of room)) ?kept"
    using assms(1) sweep
    by (simp add: Ingest_def EachRoom_def Data_EachRoom_def Let_def case_prod_beta IndexBatch_def
          i0 indexed)
  then show ?thesis
    by (simp add: Len_def keys)
qed


theorem ingest_complete_below_threshold_witness:
  "Len (index_svc (Ingest \<lparr>ByID = (\<lambda>x. x = ''!b''), ByServer = (\<lambda>x. False)\<rparr>
     \<lparr>matrix =
        \<lparr>servers = [], proxyURL = [], proxyToken = [], publicURL = [], parsing = False,
         discovering = False, eachrooming = False,
         m_data = \<lparr>servers_b = [], servers_info_b = [],
                   rooms_b = map (\<lambda>rid. (rid, \<lparr>room_id = rid, room_alias = [], room_name = ''room'',
                                room_topic = [], room_avatar = [], room_avatar_url = [],
                                room_server = ''example.org'', room_members = 1,
                                room_language = ''EN''\<rparr>)) [''!a'', ''!b'', ''!c''],
                   rb = \<lparr>data = [], size_n = 10000\<rparr>\<rparr>\<rparr>,
      index_svc = EmptyIndex \<lparr>index = [], batch = [], Batch_Rooms = 2\<rparr>\<rparr>)) = 2"
proof -
  let ?block = "\<lparr>ByID = (\<lambda>x. x = ''!b''), ByServer = (\<lambda>x. False)\<rparr>"
  let ?m = "\<lparr>servers = [], proxyURL = [], proxyToken = [], publicURL = [], parsing = False,
         discovering = False, eachrooming = False,
         m_data = \<lparr>servers_b = [], servers_info_b = [],
                   rooms_b = map (\<lambda>rid. (rid, \<lparr>room_id = rid, room_alias = [], room_name = ''room'',
                                room_topic = [], room_avatar = [], room_avatar_url = [],
                                room_server = ''example.org'', room_members = 1,
                                room_language = ''EN''\<rparr>)) [''!a'', ''!b'', ''!c''],
                   rb = \<lparr>data = [], size_n = 10000\<rparr>\<rparr>\<rparr>"
  let ?i = "\<lparr>index = [], batch = [], Batch_Rooms = 2\<rparr>"
  have idle: "\<not> eachrooming ?m" and ids: "distinct (map fst (rooms_b (m_data ?m)))"
    and empty: "batch ?i = []"
    by simp_all
  have fits: "int (length (filter (\<lambda>(rid, room). \<not> IsBlocked room ?block) (rooms_b (m_data ?m))))
                \<le> Batch_Rooms ?i"
    by (simp add: IsBlocked_def)
  from ingest_complete_below_threshold [OF idle ids empty fits, THEN conjunct1] show ?thesis
    by (simp add: IsBlocked_def)
qed

section \<open>Media URLs\<close>

text \<open>
  C9 (the code departs from the claim).  The store holds the resolved base
  \<^verbatim>\<open>https://matrix.example.org\<close> for \<^verbatim>\<open>example.org\<close> and \<^verbatim>\<open>GetServer\<close> returns it without an
  error, yet the media URLs for \<^verbatim>\<open>(example.org, abc)\<close> are those of the fallback media
  server only: the server's own download URL is appended only when \<^verbatim>\<open>GetServer\<close> returns
  an error (\<^verbatim>\<open>err != nil\<close>) together with a non-empty URL.
\<close>

theorem getMediaURLs_without_resolved_base:
  "GetServer \<lparr>servers_b = [(''example.org'', ''https://matrix.example.org'')],
              servers_info_b = [], rooms_b = [], rb = \<lparr>data = [], size_n = 10000\<rparr>\<rparr>
     ''example.org'' = (''https://matrix.example.org'', None)
   \<and> getMediaURLs
       \<lparr>servers = [], proxyURL = [], proxyToken = [], publicURL = [], parsing = False,
        discovering = False, eachrooming = False,
        m_data = \<lparr>servers_b = [(''example.org'', ''https://matrix.example.org'')],
                  servers_info_b = [], rooms_b = [], rb = \<lparr>data = [], size_n = 10000\<rparr>\<rparr>\<rparr>
       ''example.org'' ''abc''
     = [''https://matrix-client.matrix.org/_matrix/media/v3/download/example.org/abc'']"
  by (simp add: getMediaURLs_def GetServer_def matrixMediaFallbacks_def)

section \<open>Cache headers\<close>

lemma Header_Get_Set:
  "Header_Get (Header_Set h k v) k' =
     (if CanonicalMIMEHeaderKey k' = CanonicalMIMEHeaderKey k then v else Header_Get h k')"
  by (simp add: Header_Get_def Header_Set_def update_conv')

lemma canonical_Cache_Control: "CanonicalMIMEHeaderKey ''Cache-Control'' = ''Cache-Control''"
  by code_simp

lemma canonical_CDN_Tag: "CanonicalMIMEHeaderKey ''CDN-Tag'' = ''Cdn-Tag''"
  by code_simp

lemma canonical_Last_Modified: "CanonicalMIMEHeaderKey ''Last-Modified'' = ''Last-Modified''"
  by code_simp

lemma canonical_if_modified_since:
  "CanonicalMIMEHeaderKey ''if-modified-since'' = ''If-Modified-Since''"
  by code_simp

lemma canonical_If_Modified_Since:
  "CanonicalMIMEHeaderKey ''If-Modified-Since'' = ''If-Modified-Since''"
  by code_simp

lemmas canonical_keys =
  canonical_Cache_Control canonical_CDN_Tag canonical_Last_Modified canonical_if_modified_since

text \<open>
  C8.  For a GET request: on the paths \<^verbatim>\<open>/search\<close> and \<^verbatim>\<open>/_matrix/federation/v1/publicRooms\<close>
  the middleware sets \<^verbatim>\<open>Cache-Control: no-cache\<close> and passes the request on, it never answers
  304 itself; on any other path, if \<^verbatim>\<open>If-Modified-Since\<close> equals the formatted \<^verbatim>\<open>FinishedAt\<close> of
  the indexing phase it answers 304 without a body, and if not it passes the request on
  with \<^verbatim>\<open>Cache-Control: max-age=<configured>, public\<close>, \<^verbatim>\<open>CDN-Tag: mutable\<close> and \<^verbatim>\<open>Last-Modified\<close>
  equal to that \<^verbatim>\<open>FinishedAt\<close>.
\<close>

theorem cache_middleware_get:
  assumes "Method req = ''GET''"
  shows "(URL_Path req = ''/search'' \<or> URL_Path req = ''/_matrix/federation/v1/publicRooms'' \<longrightarrow>
            Middleware Format cache req resp = Next (Header_Set resp ''Cache-Control'' ''no-cache'')
          \<and> Header_Get (Header_Set resp ''Cache-Control'' ''no-cache'') ''Cache-Control'' = ''no-cache''
          \<and> (\<forall>status h. Middleware Format cache req resp \<noteq> NoContent status h))
       \<and> (URL_Path req \<noteq> ''/search'' \<and> URL_Path req \<noteq> ''/_matrix/federation/v1/publicRooms'' \<longrightarrow>
            (Header_Get (Header req) ''If-Modified-Since'' = Format (Indexing_FinishedAt cache) \<longrightarrow>
               Middleware Format cache req resp = NoContent 304 resp)
          \<and> (Header_Get (Header req) ''If-Modified-Since'' \<noteq> Format (Indexing_FinishedAt cache) \<longrightarrow>
               (\<exists>h. Middleware Format cache req resp = Next h
                  \<and> Header_Get h ''Cache-Control'' = ''max-age='' @ Itoa (MaxAge cache) @ '', public''
                  \<and> Header_Get h ''CDN-Tag'' = ''mutable''
                  \<and> Header_Get h ''Last-Modified'' = Format (Indexing_FinishedAt cache))))"
proof -
  have ims: "Header_Get (Header req) ''if-modified-since'' = Header_Get (Header req) ''If-Modified-Since''"
    by (simp only: Header_Get_def canonical_if_modified_since canonical_If_Modified_Since)
  have noncacheable: ?thesis
    if "URL_Path req = ''/search'' \<or> URL_Path req = ''/_matrix/federation/v1/publicRooms''"
    using that assms
    by (auto simp: Middleware_def noncacheablePaths_def Header_Get_Set)
  have cacheable: ?thesis
    if "URL_Path req \<noteq> ''/search''" "URL_Path req \<noteq> ''/_matrix/federation/v1/publicRooms''"
    using that assms
    by (auto simp: Middleware_def noncacheablePaths_def Header_Get_Set canonical_keys ims Let_def)
  from noncacheable cacheable show ?thesis
    by blast
qed

theorem cache_middleware_get_witness:
  "Middleware (\<lambda>t. ''Mon, 02 Jan 2006 15:04:05 GMT'') \<lparr>MaxAge = 3600, Indexing_FinishedAt = 0\<rparr>
     \<lparr>Method = ''GET'', URL_Path = ''/stats'',
      Header = [(''If-Modified-Since'', [''Mon, 02 Jan 2006 15:04:05 GMT''])]\<rparr> []
   = NoContent 304 []
   \<and> Middleware (\<lambda>t. ''Mon, 02 Jan 2006 15:04:05 GMT'') \<lparr>MaxAge = 3600, Indexing_FinishedAt = 0\<rparr>
     \<lparr>Method = ''GET'', URL_Path = ''/search'',
      Header = [(''If-Modified-Since'', [''Mon, 02 Jan 2006 15:04:05 GMT''])]\<rparr> []
   = Next [(''Cache-Control'', [''no-cache''])]"
proof -
  let ?F = "\<lambda>t::nat. ''Mon, 02 Jan 2006 15:04:05 GMT''"
  let ?c = "\<lparr>MaxAge = 3600, Indexing_FinishedAt = 0\<rparr>"
  let ?h = "[(''If-Modified-Since'', [''Mon, 02 Jan 2006 15:04:05 GMT''])]"
  let ?r1 = "\<lparr>Method = ''GET'', URL_Path = ''/stats'', Header = ?h\<rparr>"
  let ?r2 = "\<lparr>Method = ''GET'', URL_Path = ''/search'', Header = ?h\<rparr>"
  have get1: "Method ?r1 = ''GET''" and get2: "Method ?r2 = ''GET''"
    by simp_all
  have ims: "Header_Get ?h ''If-Modified-Since'' = ''Mon, 02 Jan 2006 15:04:05 GMT''"
    by code_simp
  have "Middleware ?F ?c ?r1 [] = NoContent 304 []"
    using cache_middleware_get [OF get1, of ?F ?c "[]"] ims by simp
  moreover have "Middleware ?F ?c ?r2 [] = Next [(''Cache-Control'', [''no-cache''])]"
    using cache_middleware_get [OF get2, of ?F ?c "[]"]
    by (simp add: Header_Set_def canonical_Cache_Control)
  ultimately show ?thesis
    by simp
qed

section \<open>Endpoint resolution\<close>









lemma Split_append_sep:
  "sep \<notin> set k \<Longrightarrow> Split (k @ sep # v) sep = k # Split v sep"
  by (induction k) (auto split: list.splits)











section \<open>Server discovery\<close>

lemma discoverServer_cases:
  "discoverServer w block m name =
     (if ByServer block name then (None, m\<lparr>m_data := snd (RemoveServer (m_data m) name)\<rparr>)
      else if fst (GetServer (m_data m) name) \<noteq> [] then (None, m)
      else (None, m\<lparr>m_data := snd (AddServer (m_data m)
              \<lparr>srv_Name = name, srv_URL = [], srv_Online = validateDiscoveredServer w name,
               srv_Indexable = False, srv_UpdatedAt = now w,
               srv_Contacts = (case getServerContacts w name of
                                 Some contacts \<Rightarrow> contacts
                               | None \<Rightarrow> \<lparr>Emails = [], MXIDs = [], URL = []\<rparr>)\<rparr>)\<rparr>))"
proof (cases "GetServer (m_data m) name")
  case (Pair existingURL err)
  show ?thesis
  proof (cases "getServerContacts w name")
    case None
    with Pair show ?thesis
      by (simp add: discoverServer_def RemoveServer_def AddServer_def Let_def)
  next
    case (Some contacts)
    with Pair show ?thesis
      by (simp add: discoverServer_def RemoveServer_def AddServer_def Let_def)
  qed
qed

lemma step_cases:
  "DiscoverServers_step w block m name =
     (if ByServer block name then m\<lparr>m_data := snd (RemoveServer (m_data m) name)\<rparr>
      else if fst (GetServer (m_data m) name) \<noteq> [] then m
      else m\<lparr>m_data := snd (AddServer (m_data m)
              \<lparr>srv_Name = name, srv_URL = [], srv_Online = validateDiscoveredServer w name,
               srv_Indexable = False, srv_UpdatedAt = now w,
               srv_Contacts = (case getServerContacts w name of
                                 Some contacts \<Rightarrow> contacts
                               | None \<Rightarrow> \<lparr>Emails = [], MXIDs = [], URL = []\<rparr>)\<rparr>)\<rparr>)"
  by (simp add: DiscoverServers_step_def discoverServer_cases RemoveServer_def)

lemma step_blocked:
  "ByServer block name \<Longrightarrow>
   map_of (servers_b (m_data (DiscoverServers_step w block m name))) name = None
   \<and> map_of (servers_info_b (m_data (DiscoverServers_step w block m name))) name = None"
  by (simp add: step_cases RemoveServer_def delete_conv')

lemma step_known:
  "\<not> ByServer block name \<Longrightarrow> fst (GetServer (m_data m) name) \<noteq> [] \<Longrightarrow>
   DiscoverServers_step w block m name = m"
  by (simp add: step_cases)

lemma step_new:
  "\<not> ByServer block name \<Longrightarrow> fst (GetServer (m_data m) name) = [] \<Longrightarrow>
   \<exists>srv. map_of (servers_info_b (m_data (DiscoverServers_step w block m name))) name = Some srv
       \<and> srv_Name srv = name \<and> srv_Online srv = validateDiscoveredServer w name"
  by (simp add: step_cases AddServer_def update_conv')

lemma step_frame:
  "k \<noteq> name \<Longrightarrow>
   map_of (servers_b (m_data (DiscoverServers_step w block m name))) k = map_of (servers_b (m_data m)) k
   \<and> map_of (servers_info_b (m_data (DiscoverServers_step w block m name))) k
       = map_of (servers_info_b (m_data m)) k"
  by (simp add: step_cases AddServer_def RemoveServer_def update_conv' delete_conv')

lemma GetServer_url: "fst (GetServer d name) = (case map_of (servers_b d) name of None \<Rightarrow> [] | Some u \<Rightarrow> u)"
  by (simp add: GetServer_def split: option.splits)

text \<open>What a step does under a name depends on the store only through that name's entries.\<close>

lemma step_local:
  assumes "map_of (servers_b (m_data m)) name = map_of (servers_b (m_data m')) name"
    and "map_of (servers_info_b (m_data m)) name = map_of (servers_info_b (m_data m')) name"
  shows "map_of (servers_b (m_data (DiscoverServers_step w block m name))) name
           = map_of (servers_b (m_data (DiscoverServers_step w block m' name))) name
       \<and> map_of (servers_info_b (m_data (DiscoverServers_step w block m name))) name
           = map_of (servers_info_b (m_data (DiscoverServers_step w block m' name))) name"
proof -
  have url: "fst (GetServer (m_data m) name) = fst (GetServer (m_data m') name)"
    by (simp add: GetServer_url assms(1))
  show ?thesis
  proof (cases "ByServer block name")
    case True
    then show ?thesis
      by (simp add: step_blocked)
  next
    case False
    show ?thesis
    proof (cases "fst (GetServer (m_data m) name) = []")
      case True
      with url have "fst (GetServer (m_data m') name) = []" by simp
      with True False show ?thesis
        by (simp add: step_cases AddServer_def update_conv')
    next
      case nonempty: False
      with url have "fst (GetServer (m_data m') name) \<noteq> []" by simp
      with nonempty False assms show ?thesis
        by (simp add: step_known)
    qed
  qed
qed

lemma foldl_step_entries:
  "distinct names \<Longrightarrow>
   map_of (servers_b (m_data (foldl (DiscoverServers_step w block) m names))) name
     = (if name \<in> set names
        then map_of (servers_b (m_data (DiscoverServers_step w block m name))) name
        else map_of (servers_b (m_data m)) name)
   \<and> map_of (servers_info_b (m_data (foldl (DiscoverServers_step w block) m names))) name
     = (if name \<in> set names
        then map_of (servers_info_b (m_data (DiscoverServers_step w block m name))) name
        else map_of (servers_info_b (m_data m)) name)"
proof (induction names arbitrary: m)
  case Nil
  then show ?case by simp
next
  case (Cons x xs)
  let ?m1 = "DiscoverServers_step w block m x"
  from Cons.prems have dist: "distinct xs" and notin: "x \<notin> set xs"
    by simp_all
  note IH = Cons.IH [OF dist, of ?m1]
  show ?case
  proof (cases "name = x")
    case True
    with notin IH show ?thesis by simp
  next
    case False
    note frame = step_frame [OF False, of w block m]
    show ?thesis
    proof (cases "name \<in> set xs")
      case True
      from step_local [of ?m1 name m w block] frame
      have "map_of (servers_b (m_data (DiscoverServers_step w block ?m1 name))) name
              = map_of (servers_b (m_data (DiscoverServers_step w block m name))) name
          \<and> map_of (servers_info_b (m_data (DiscoverServers_step w block ?m1 name))) name
              = map_of (servers_info_b (m_data (DiscoverServers_step w block m name))) name"
        by simp
      with True False IH show ?thesis by simp
    next
      case notin_xs: False
      with False IH frame show ?thesis by simp
    qed
  qed
qed

lemma DiscoverServers_data:
  "\<not> discovering m \<Longrightarrow>
   m_data (snd (DiscoverServers w block m))
     = m_data (foldl (DiscoverServers_step w block) m
                 (MergeSlices (MapKeys (AllServers (m_data m))) (servers m)))"
proof -
  have flag: "m_data (foldl (DiscoverServers_step w block) (m0\<lparr>discovering := b\<rparr>) names)
                = m_data (foldl (DiscoverServers_step w block) m0 names)" for m0 b names
  proof (induction names arbitrary: m0)
    case Nil
    then show ?case by simp
  next
    case (Cons x xs)
    have "DiscoverServers_step w block (m0\<lparr>discovering := b\<rparr>) x
            = (DiscoverServers_step w block m0 x)\<lparr>discovering := b\<rparr>"
      by (simp add: step_cases AddServer_def RemoveServer_def)
    with Cons.IH show ?case by simp
  qed
  assume "\<not> discovering m"
  then show ?thesis
    by (simp add: DiscoverServers_def Let_def flag)
qed

text \<open>
  C5.  \<^verbatim>\<open>DiscoverServers\<close> processes the names of the servers in the store and of the seed
  list.  For each of them, after the run: if the name is blocklisted the store has no
  entry for it, neither URL nor record (it is removed and not discovered); if the
  store held a non-empty URL for it, its entries are as before; otherwise the store
  holds a record for it, whose \<^verbatim>\<open>Online\<close> flag is false exactly when the validation probe
  (the \<^verbatim>\<open>publicRooms\<close> call with limit 1) fails.
\<close>

theorem DiscoverServers_per_server:
  assumes "\<not> discovering m"
    and "name \<in> set (MapKeys (AllServers (m_data m))) \<union> set (servers m)"
  shows
    "(ByServer block name \<longrightarrow>
        map_of (servers_b (m_data (snd (DiscoverServers w block m)))) name = None
      \<and> map_of (servers_info_b (m_data (snd (DiscoverServers w block m)))) name = None)
   \<and> (\<not> ByServer block name \<and> fst (GetServer (m_data m) name) \<noteq> [] \<longrightarrow>
        map_of (servers_b (m_data (snd (DiscoverServers w block m)))) name
          = map_of (servers_b (m_data m)) name
      \<and> map_of (servers_info_b (m_data (snd (DiscoverServers w block m)))) name
          = map_of (servers_info_b (m_data m)) name)
   \<and> (\<not> ByServer block name \<and> fst (GetServer (m_data m) name) = [] \<longrightarrow>
        (\<exists>srv. map_of (servers_info_b (m_data (snd (DiscoverServers w block m)))) name = Some srv
           \<and> srv_Name srv = name
           \<and> (srv_Online srv = False \<longleftrightarrow> getPublicRoomsPage w name ''1'' [] = None)))"
proof -
  let ?names = "MergeSlices (MapKeys (AllServers (m_data m))) (servers m)"
  have dist: "distinct ?names"
    by (simp add: MergeSlices_def)
  from assms(2) have mem: "name \<in> set ?names"
    by (simp add: MergeSlices_def)
  note final = foldl_step_entries [OF dist, of w block m name] DiscoverServers_data [OF assms(1), of w block]
  show ?thesis
  proof (intro conjI impI)
    assume blocked: "ByServer block name"
    from step_blocked [OF blocked, of w m] final mem
    show "map_of (servers_b (m_data (snd (DiscoverServers w block m)))) name = None"
      and "map_of (servers_info_b (m_data (snd (DiscoverServers w block m)))) name = None"
      by simp_all
  next
    assume known: "\<not> ByServer block name \<and> fst (GetServer (m_data m) name) \<noteq> []"
    then have "DiscoverServers_step w block m name = m"
      by (simp add: step_known)
    with final mem
    show "map_of (servers_b (m_data (snd (DiscoverServers w block m)))) name
            = map_of (servers_b (m_data m)) name"
      and "map_of (servers_info_b (m_data (snd (DiscoverServers w block m)))) name
            = map_of (servers_info_b (m_data m)) name"
      by simp_all
  next
    assume new: "\<not> ByServer block name \<and> fst (GetServer (m_data m) name) = []"
    then obtain srv where
      "map_of (servers_info_b (m_data (DiscoverServers_step w block m name))) name = Some srv"
      "srv_Name srv = name" "srv_Online srv = validateDiscoveredServer w name"
      using step_new [of block name m w] by blast
    with final mem
    show "\<exists>srv. map_of (servers_info_b (m_data (snd (DiscoverServers w block m)))) name = Some srv
           \<and> srv_Name srv = name
           \<and> (srv_Online srv = False \<longleftrightarrow> getPublicRoomsPage w name ''1'' [] = None)"
      by (simp add: validateDiscoveredServer_def)
  qed
qed


theorem DiscoverServers_per_server_witness:
  "(let w = \<lparr>publicRooms_call = (\<lambda>name limit since. CallError ''connection refused''),
             msc1929_Get = (\<lambda>name. None), now = 7\<rparr>;
        block = \<lparr>ByID = (\<lambda>x. False), ByServer = (\<lambda>x. x = ''b.example'')\<rparr>;
        m = \<lparr>servers = [''a.example'', ''b.example''], proxyURL = [], proxyToken = [],
             publicURL = [], parsing = False, discovering = False, eachrooming = False,
             m_data = \<lparr>servers_b = [(''b.example'', ''https://b.example:8448''),
                                    (''c.example'', ''https://c.example:8448'')],
                       servers_info_b = [], rooms_b = [], rb = \<lparr>data = [], size_n = 10000\<rparr>\<rparr>\<rparr>;
        d = m_data (snd (DiscoverServers w block m))
    in map_of (servers_b d) ''b.example'' = None
       \<and> map_of (servers_b d) ''c.example'' = Some ''https://c.example:8448''
       \<and> map_option srv_Online (map_of (servers_info_b d) ''a.example'') = Some False)"
proof -
  let ?w = "\<lparr>publicRooms_call = (\<lambda>name limit since. CallError ''connection refused''),
             msc1929_Get = (\<lambda>name. None), now = 7\<rparr>"
  let ?block = "\<lparr>ByID = (\<lambda>x. False), ByServer = (\<lambda>x. x = ''b.example'')\<rparr>"
  let ?m = "\<lparr>servers = [''a.example'', ''b.example''], proxyURL = [], proxyToken = [],
             publicURL = [], parsing = False, discovering = False, eachrooming = False,
             m_data = \<lparr>servers_b = [(''b.example'', ''https://b.example:8448''),
                                    (''c.example'', ''https://c.example:8448'')],
                       servers_info_b = [], rooms_b = [], rb = \<lparr>data = [], size_n = 10000\<rparr>\<rparr>\<rparr>"
  have idle: "\<not> discovering ?m"
    by simp
  have a: "''a.example'' \<in> set (MapKeys (AllServers (m_data ?m))) \<union> set (servers ?m)"
    and b: "''b.example'' \<in> set (MapKeys (AllServers (m_data ?m))) \<union> set (servers ?m)"
    and c: "''c.example'' \<in> set (MapKeys (AllServers (m_data ?m))) \<union> set (servers ?m)"
    by (simp_all add: MapKeys_def AllServers_def)
  have blocked: "ByServer ?block ''b.example''"
    by simp
  have known: "\<not> ByServer ?block ''c.example'' \<and> fst (GetServer (m_data ?m) ''c.example'') \<noteq> []"
    by (simp add: GetServer_def)
  have new: "\<not> ByServer ?block ''a.example'' \<and> fst (GetServer (m_data ?m) ''a.example'') = []"
    by (simp add: GetServer_def)
  have probe: "getPublicRoomsPage ?w ''a.example'' ''1'' [] = None"
    by (simp add: getPublicRoomsPage_def)
  note rb = DiscoverServers_per_server [OF idle b, of ?block ?w, THEN conjunct1, THEN mp, OF blocked]
  note rc = DiscoverServers_per_server [OF idle c, of ?block ?w, THEN conjunct2, THEN conjunct1,
      THEN mp, OF known]
  note ra = DiscoverServers_per_server [OF idle a, of ?block ?w, THEN conjunct2, THEN conjunct2,
      THEN mp, OF new]
  from ra probe have "map_option srv_Online
      (map_of (servers_info_b (m_data (snd (DiscoverServers ?w ?block ?m)))) ''a.example'') = Some False"
    by auto
  with rb rc show ?thesis
    unfolding Let_def by simp
qed

section \<open>Pagination of the public rooms\<close>










section \<open>Search queries\<close>

lemma AddMust_fields:
  "foldl (\<lambda>boolQ (field, fieldQ). AddMust boolQ (newMatchQuery fieldQ field False))
     (BooleanQuery must should must_not) fs
   = BooleanQuery (must @ map (\<lambda>(field, fieldQ). MatchQuery fieldQ field (Some (SearchFieldsBoost field))) fs)
       should must_not"
proof (induction fs arbitrary: must)
  case Nil
  then show ?case by simp
next
  case (Cons p fs)
  obtain field fieldQ where p: "p = (field, fieldQ)"
    by (cases p)
  have "newMatchQuery fieldQ field False = MatchQuery fieldQ field (Some (SearchFieldsBoost field))"
    by (simp add: newMatchQuery_def NewMatchQuery_def)
  with Cons.IH [of "must @ [MatchQuery fieldQ field (Some (SearchFieldsBoost field))]"] show ?case
    by (simp add: p)
qed

lemma newMatchQuery_result:
  "newMatchQuery m field phrase =
     (if phrase then MatchPhraseQuery m field (Some (SearchFieldsBoost field))
      else MatchQuery m field (Some (SearchFieldsBoost field)))"
  by (simp add: newMatchQuery_def NewMatchQuery_def NewMatchPhraseQuery_def)

lemma SearchFieldsBoost_table:
  "SearchFieldsBoost ''name'' = 10" "SearchFieldsBoost ''alias'' = 5"
  "SearchFieldsBoost ''topic'' = 0" "SearchFieldsBoost ''server'' = 10"
  "SearchFieldsBoost ''language'' = 100"
  by (simp_all add: SearchFieldsBoost_def)

lemma getSearchQuery_result:
  "getSearchQuery q0 fs =
     DisjunctionQuery
       ((if Contains (TrimSpace q0) '' ''
         then [MatchPhraseQuery (TrimSpace q0) ''name'' (Some 10),
               MatchPhraseQuery (TrimSpace q0) ''alias'' (Some 5),
               MatchPhraseQuery (TrimSpace q0) ''topic'' (Some 0),
               MatchPhraseQuery (TrimSpace q0) ''server'' (Some 10)]
         else [MatchQuery (TrimSpace q0) ''name'' (Some 10),
               MatchQuery (TrimSpace q0) ''alias'' (Some 5),
               MatchQuery (TrimSpace q0) ''topic'' (Some 0),
               MatchQuery (TrimSpace q0) ''server'' (Some 10)])
        @ (if fs = [] then []
           else [BooleanQuery
                   (map (\<lambda>(field, fieldQ). MatchQuery fieldQ field (Some (SearchFieldsBoost field))) fs)
                   [] []]))"
  using AddMust_fields [of "[]" "[]" "[]" fs]
  by (simp add: getSearchQuery_def Let_def newMatchQuery_result SearchFieldsBoost_table
        NewBooleanQuery_def)

lemma matchFields_part_distinct:
  "distinct (map fst (snd acc)) \<Longrightarrow> distinct (map fst (snd (matchFields_part acc part)))"
  by (cases acc) (simp add: matchFields_part_def Let_def distinct_update)

lemma foldl_matchFields_part_distinct:
  "distinct (map fst (snd acc)) \<Longrightarrow> distinct (map fst (snd (foldl matchFields_part acc parts)))"
  by (induction parts arbitrary: acc) (simp_all add: matchFields_part_distinct)

lemma matchFields_colon:
  "Contains query '':'' \<Longrightarrow>
   matchFields query =
     (TrimSpace (foldl (\<lambda>q remove. ReplaceAll q remove []) query
                   (fst (foldl matchFields_part ([], []) (Split query CHR '' '')))),
      snd (foldl matchFields_part ([], []) (Split query CHR '' '')))"
  by (simp add: matchFields_def Let_def case_prod_beta)

lemma matchFields_distinct: "distinct (map fst (snd (matchFields query)))"
proof (cases "Contains query '':''")
  case True
  have "distinct (map fst (snd (foldl matchFields_part ([], []) (Split query CHR '' ''))))"
    by (rule foldl_matchFields_part_distinct) simp
  with True show ?thesis
    by (simp add: matchFields_colon)
next
  case False
  then show ?thesis
    by (simp add: matchFields_def)
qed

text \<open>
  C2 (as amended).  For every input string the query handed to the repository is a
  disjunction that starts with four match sub-queries on the trimmed residual text,
  over the fields \<open>name\<close>, \<open>alias\<close>, \<open>topic\<close> and \<open>server\<close> in this order: phrase matches if that
  text contains a space, plain matches otherwise.  Their boosts are set to 10, 5, 0 and
  10: a field outside the boost table, such as \<open>topic\<close>, has its boost set to 0, the value
  a Go map gives for a missing key, and not left at the engine's default.  If the field
  map is not empty, one boolean query follows as a fifth disjunct; its must-clauses are
  one plain match per entry of the field map (one entry per key), each with the boost
  of its field (100 for \<open>language\<close>), and it has no other clauses.
\<close>

theorem Search_query_structure:
  "Search_query input =
     DisjunctionQuery
       ((if Contains (TrimSpace (fst (matchFields input))) '' ''
         then [MatchPhraseQuery (TrimSpace (fst (matchFields input))) ''name'' (Some 10),
               MatchPhraseQuery (TrimSpace (fst (matchFields input))) ''alias'' (Some 5),
               MatchPhraseQuery (TrimSpace (fst (matchFields input))) ''topic'' (Some 0),
               MatchPhraseQuery (TrimSpace (fst (matchFields input))) ''server'' (Some 10)]
         else [MatchQuery (TrimSpace (fst (matchFields input))) ''name'' (Some 10),
               MatchQuery (TrimSpace (fst (matchFields input))) ''alias'' (Some 5),
               MatchQuery (TrimSpace (fst (matchFields input))) ''topic'' (Some 0),
               MatchQuery (TrimSpace (fst (matchFields input))) ''server'' (Some 10)])
        @ (if snd (matchFields input) = [] then []
           else [BooleanQuery
                   (map (\<lambda>(field, fieldQ). MatchQuery fieldQ field (Some (SearchFieldsBoost field)))
                      (snd (matchFields input)))
                   [] []]))
   \<and> distinct (map fst (snd (matchFields input)))
   \<and> SearchFieldsBoost ''language'' = 100
   \<and> (\<forall>field. field \<notin> {''language'', ''name'', ''server'', ''alias''} \<longrightarrow> SearchFieldsBoost field = 0)"
proof -
  have "Search_query input = getSearchQuery (fst (matchFields input)) (snd (matchFields input))"
    by (simp add: Search_query_def split: prod.splits)
  then show ?thesis
    by (simp add: getSearchQuery_result matchFields_distinct SearchFieldsBoost_def)
qed

theorem Search_query_structure_witness:
  "Search_query ''foss language:EN'' =
     DisjunctionQuery
       [MatchQuery ''foss'' ''name'' (Some 10), MatchQuery ''foss'' ''alias'' (Some 5),
        MatchQuery ''foss'' ''topic'' (Some 0), MatchQuery ''foss'' ''server'' (Some 10),
        BooleanQuery [MatchQuery ''EN'' ''language'' (Some 100)] [] []]
   \<and> SearchFieldsBoost ''topic'' = 0"
proof -
  have mf: "matchFields ''foss language:EN'' = (''foss'', [(''language'', ''EN'')])"
    by code_simp
  have trim: "TrimSpace ''foss'' = ''foss''"
    by code_simp
  have other: "''topic'' \<notin> {''language'', ''name'', ''server'', ''alias''}"
    by simp
  note w = Search_query_structure [of "''foss language:EN''"]
  from w [THEN conjunct1]
    w [THEN conjunct2, THEN conjunct2, THEN conjunct2, rule_format, OF other]
  show ?thesis
    by (simp add: mf trim SearchFieldsBoost_def)
qed

text \<open>
  C2 (as stated) fails on the boost of \<open>topic\<close>: for the input \<^verbatim>\<open>foss\<close> the sub-query on \<open>topic\<close>
  has its boost set to 0, while a match query on \<open>topic\<close> with the default boost is one
  whose boost was never set.
\<close>

theorem Search_query_topic_boost_counterexample:
  "Search_query ''foss'' =
     DisjunctionQuery
       [MatchQuery ''foss'' ''name'' (Some 10), MatchQuery ''foss'' ''alias'' (Some 5),
        MatchQuery ''foss'' ''topic'' (Some 0), MatchQuery ''foss'' ''server'' (Some 10)]
   \<and> SetField (NewMatchQuery ''foss'') ''topic'' = MatchQuery ''foss'' ''topic'' None
   \<and> MatchQuery ''foss'' ''topic'' (Some 0) \<noteq> SetField (NewMatchQuery ''foss'') ''topic''"
proof -
  have "Search_query ''foss'' =
     DisjunctionQuery
       [MatchQuery ''foss'' ''name'' (Some 10), MatchQuery ''foss'' ''alias'' (Some 5),
        MatchQuery ''foss'' ''topic'' (Some 0), MatchQuery ''foss'' ''server'' (Some 10)]"
    by code_simp
  then show ?thesis
    by (simp add: NewMatchQuery_def)
qed

section \<open>Splitting, joining and removing\<close>

lemma Contains_char: "Contains s [c] \<longleftrightarrow> c \<in> set s"
  by (induction s) auto

lemma Split_nonempty: "Split s sep \<noteq> []"
  by (induction s) (auto split: list.splits)

lemma Split_hd: "hd (Split s sep) = takeWhile (\<lambda>c. c \<noteq> sep) s"
  using Split_nonempty [of _ sep] by (induction s) (auto split: list.splits)

lemma Split_parts_no_sep: "p \<in> set (Split s sep) \<Longrightarrow> sep \<notin> set p"
proof (induction s arbitrary: p)
  case Nil
  then show ?case by simp
next
  case (Cons c s)
  show ?case
  proof (cases "c = sep")
    case True
    with Cons show ?thesis by auto
  next
    case False
    obtain q qs where split: "Split s sep = q # qs"
      using Split_nonempty [of s sep] by (cases "Split s sep") auto
    with Cons.prems False have "p = c # q \<or> p \<in> set qs"
      by simp
    with Cons.IH [of q] Cons.IH [of p] split False show ?thesis
      by auto
  qed
qed

lemma Join_Split: "Join (Split s sep) sep = s"
proof (induction s)
  case Nil
  then show ?case by simp
next
  case (Cons c s)
  obtain q qs where split: "Split s sep = q # qs"
    using Split_nonempty [of s sep] by (cases "Split s sep") auto
  with Cons show ?case
    by (cases qs) auto
qed

lemma set_Join: "set (Join ps sep) \<subseteq> (\<Union>p\<in>set ps. set p) \<union> {sep}"
  by (induction ps sep rule: Join.induct) auto

text \<open>Removing a token that has no space from a text that does not contain it.\<close>

lemma ReplaceAll_absent:
  "t \<noteq> [] \<Longrightarrow> \<not> sublist t p \<Longrightarrow> ReplaceAll p t [] = p"
proof (induction p)
  case Nil
  then show ?case by simp
next
  case (Cons c p)
  from Cons.prems(2) have "\<not> prefix t (c # p)" and "\<not> sublist t p"
    by (auto simp: sublist_Cons_right)
  with Cons show ?case by simp
qed

lemma ReplaceAll_before_space:
  assumes "t \<noteq> []" and "CHR '' '' \<notin> set t" and "\<not> sublist t p"
  shows "ReplaceAll (p @ CHR '' '' # rest) t [] = p @ CHR '' '' # ReplaceAll rest t []"
  using assms(3)
proof (induction p)
  case Nil
  from assms(1,2) have "\<not> prefix t (CHR '' '' # rest)"
    by (cases t) auto
  with assms(1) show ?case by simp
next
  case (Cons c p)
  from Cons.prems have noprefix: "\<not> prefix t (c # p)" and tail: "\<not> sublist t p"
    by (auto simp: sublist_Cons_right)
  have "\<not> prefix t ((c # p) @ CHR '' '' # rest)"
  proof
    assume "prefix t ((c # p) @ CHR '' '' # rest)"
    then have "prefix t (c # p) \<or> (\<exists>us. t = (c # p) @ us \<and> prefix us (CHR '' '' # rest))"
      by (simp only: prefix_append)
    with noprefix obtain us where t: "t = (c # p) @ us" and us: "prefix us (CHR '' '' # rest)"
      by blast
    from t noprefix have "us \<noteq> []" by auto
    with us have "CHR '' '' \<in> set us"
      by (cases us) auto
    with t assms(2) show False by simp
  qed
  with assms(1) Cons.IH [OF tail] show ?case by simp
qed

lemma ReplaceAll_token:
  "t \<noteq> [] \<Longrightarrow> ReplaceAll (t @ rest) t [] = ReplaceAll rest t []"
  by (cases t) simp_all

lemma ReplaceAll_self: "t \<noteq> [] \<Longrightarrow> ReplaceAll t t [] = []"
  using ReplaceAll_token [of t "[]"] by simp

text \<open>
  Removing a token from a text made of parts joined by spaces blanks the parts that
  are the token, if the token occurs in no other part.
\<close>

lemma ReplaceAll_Join:
  assumes "t \<noteq> []" and "CHR '' '' \<notin> set t"
  shows "\<forall>p\<in>set ps. p \<noteq> t \<longrightarrow> \<not> sublist t p \<Longrightarrow>
         ReplaceAll (Join ps CHR '' '') t [] = Join (map (\<lambda>p. if p = t then [] else p) ps) CHR '' ''"
proof (induction ps "CHR '' ''" rule: Join.induct)
  case 1
  then show ?case by simp
next
  case (2 p)
  with assms(1) show ?case
    by (simp add: ReplaceAll_absent ReplaceAll_self)
next
  case (3 p q ps)
  from "3.prems" have rest: "\<forall>p\<in>set (q # ps). p \<noteq> t \<longrightarrow> \<not> sublist t p"
    by simp
  note IH = "3.hyps" [OF rest]
  show ?case
  proof (cases "p = t")
    case True
    have "ReplaceAll (t @ CHR '' '' # Join (q # ps) CHR '' '') t []
            = ReplaceAll (CHR '' '' # Join (q # ps) CHR '' '') t []"
      by (rule ReplaceAll_token [OF assms(1)])
    also have "\<dots> = CHR '' '' # ReplaceAll (Join (q # ps) CHR '' '') t []"
      using ReplaceAll_before_space [OF assms, of "[]"] by simp
    finally show ?thesis
      using True IH by simp
  next
    case False
    with "3.prems" have "\<not> sublist t p" by simp
    from ReplaceAll_before_space [OF assms this] False IH show ?thesis
      by simp
  qed
qed

lemma foldl_ReplaceAll_Join:
  assumes "\<forall>t\<in>set ts. t \<noteq> [] \<and> CHR '' '' \<notin> set t \<and> (\<forall>p\<in>set parts. p \<noteq> t \<longrightarrow> \<not> sublist t p)"
  shows "foldl (\<lambda>q remove. ReplaceAll q remove [])
           (Join (map (\<lambda>p. if p \<in> D then [] else p) parts) CHR '' '') ts
         = Join (map (\<lambda>p. if p \<in> D \<union> set ts then [] else p) parts) CHR '' ''"
  using assms
proof (induction ts arbitrary: D)
  case Nil
  then show ?case by simp
next
  case (Cons t ts)
  from Cons.prems have t: "t \<noteq> []" "CHR '' '' \<notin> set t"
    and apart: "\<forall>p\<in>set parts. p \<noteq> t \<longrightarrow> \<not> sublist t p"
    and rest: "\<forall>t\<in>set ts. t \<noteq> [] \<and> CHR '' '' \<notin> set t \<and> (\<forall>p\<in>set parts. p \<noteq> t \<longrightarrow> \<not> sublist t p)"
    by simp_all
  let ?ps = "map (\<lambda>p. if p \<in> D then [] else p) parts"
  from apart t(1) have "\<forall>p\<in>set ?ps. p \<noteq> t \<longrightarrow> \<not> sublist t p"
    by auto
  from ReplaceAll_Join [OF t this]
  have removed: "ReplaceAll (Join ?ps CHR '' '') t []
                   = Join (map (\<lambda>p. if p = t then [] else p) ?ps) CHR '' ''" .
  have blank: "map (\<lambda>p. if p = t then [] else p) ?ps
                 = map (\<lambda>p. if p \<in> insert t D then [] else p) parts"
    using t(1) by auto
  from Cons.IH [OF rest, of "insert t D"] show ?case
    by (simp only: foldl_Cons removed blank list.set Un_insert_left Un_insert_right)
qed

section \<open>Trimming\<close>

lemma set_TrimLeftSpace: "set (TrimLeftSpace s) \<subseteq> set s"
proof (induction s rule: TrimLeftSpace.induct)
  case (1 s)
  show ?case
  proof (cases "leading_space s")
    case None
    then show ?thesis
      by (simp add: TrimLeftSpace.simps [of s])
  next
    case (Some sp)
    from "1" [OF Some] set_drop_subset [of "length sp" s] Some show ?thesis
      by (simp add: TrimLeftSpace.simps [of s])
  qed
qed

lemma set_TrimRightSpace: "set (TrimRightSpace s) \<subseteq> set s"
proof (induction s rule: TrimRightSpace.induct)
  case (1 s)
  show ?case
  proof (cases "trailing_space s")
    case None
    then show ?thesis
      by (simp add: TrimRightSpace.simps [of s])
  next
    case (Some sp)
    from "1" [OF Some] set_take_subset [of "length s - length sp" s] Some show ?thesis
      by (simp add: TrimRightSpace.simps [of s])
  qed
qed

lemma set_TrimSpace: "set (TrimSpace s) \<subseteq> set s"
  using set_TrimLeftSpace [of s] set_TrimRightSpace [of "TrimLeftSpace s"]
  by (auto simp: TrimSpace_def)


section \<open>Field extraction\<close>

lemma matchFields_part_toRemove:
  "fst (matchFields_part (toRemove, fs) part)
     = (if CHR '':'' \<in> set part then toRemove @ [part] else toRemove)"
  by (simp add: matchFields_part_def Contains_char Let_def)

lemma foldl_matchFields_part_toRemove:
  "fst (foldl matchFields_part (toRemove, fs) parts)
     = toRemove @ filter (\<lambda>p. CHR '':'' \<in> set p) parts"
proof (induction parts arbitrary: toRemove fs)
  case Nil
  then show ?case by simp
next
  case (Cons p parts)
  obtain r1 f1 where step: "matchFields_part (toRemove, fs) p = (r1, f1)"
    by (cases "matchFields_part (toRemove, fs) p")
  with matchFields_part_toRemove [of toRemove fs p]
  have "r1 = (if CHR '':'' \<in> set p then toRemove @ [p] else toRemove)"
    by simp
  with Cons.IH [of r1 f1] step show ?case
    by simp
qed

lemma matchFields_part_other_key:
  assumes "CHR '':'' \<in> set u \<longrightarrow> TrimSpace (Split (TrimSpace u) CHR '':'' ! 0) \<noteq> key"
  shows "map_of (snd (matchFields_part acc u)) key = map_of (snd acc) key"
  using assms by (cases acc) (auto simp: matchFields_part_def Contains_char Let_def update_conv')

lemma foldl_matchFields_part_other_keys:
  assumes "\<forall>u\<in>set us. CHR '':'' \<in> set u \<longrightarrow> TrimSpace (Split (TrimSpace u) CHR '':'' ! 0) \<noteq> key"
  shows "map_of (snd (foldl matchFields_part acc us)) key = map_of (snd acc) key"
  using assms
proof (induction us arbitrary: acc)
  case Nil
  then show ?case by simp
next
  case (Cons u us)
  from Cons.prems have "map_of (snd (matchFields_part acc u)) key = map_of (snd acc) key"
    by (intro matchFields_part_other_key) simp
  with Cons.IH [of "matchFields_part acc u"] Cons.prems show ?case
    by simp
qed

lemma matchFields_part_entry:
  assumes "TrimSpace t = k @ CHR '':'' # v" and "CHR '':'' \<notin> set k"
  shows "map_of (snd (matchFields_part acc t)) (TrimSpace k)
           = Some (TrimSpace (takeWhile (\<lambda>c. c \<noteq> CHR '':'') v))"
proof -
  from assms(1) set_TrimSpace [of t] have colon: "CHR '':'' \<in> set t"
    by auto
  have pair: "Split (TrimSpace t) CHR '':'' = k # Split v CHR '':''"
    by (simp only: assms(1) Split_append_sep [OF assms(2)])
  obtain x xs where v: "Split v CHR '':'' = x # xs"
    using Split_nonempty [of v "CHR '':''"] by (cases "Split v CHR '':''") auto
  with Split_hd [of v "CHR '':''"] have x: "x = takeWhile (\<lambda>c. c \<noteq> CHR '':'') v"
    by simp
  show ?thesis
    by (cases acc) (simp add: matchFields_part_def Contains_char colon pair v x Let_def update_conv')
qed

text \<open>
  C10 (as amended).  For a query that contains a colon, split at its spaces:
  \<^item> if no part with a colon occurs inside a different part, the residual text is the
    query with every part that has a colon left out, trimmed; it contains no colon, so
    every such part is removed whether or not it is a proper \<open>key:value\<close> pair;
  \<^item> a part that reads \<open>k:v\<close> after trimming, with no colon in \<open>k\<close>, gives the field entry
    that maps \<open>k\<close> (trimmed) to the text of \<open>v\<close> before its first colon (trimmed), unless a
    later part writes the same key: \<open>k:\<close> maps \<open>k\<close> to the empty string, \<open>k:v:w\<close> maps \<open>k\<close> to \<open>v\<close>,
    and a bare \<open>:\<close> maps the empty key to the empty string.
\<close>

theorem matchFields_colon_tokens:
  assumes "CHR '':'' \<in> set query"
  shows
    "((\<forall>t\<in>set (Split query CHR '' ''). CHR '':'' \<in> set t \<longrightarrow>
          (\<forall>p\<in>set (Split query CHR '' ''). p \<noteq> t \<longrightarrow> \<not> sublist t p)) \<longrightarrow>
        fst (matchFields query)
          = TrimSpace (Join (map (\<lambda>p. if CHR '':'' \<in> set p then [] else p)
                               (Split query CHR '' '')) CHR '' '')
      \<and> CHR '':'' \<notin> set (fst (matchFields query)))
   \<and> (\<forall>pre t post k v.
        Split query CHR '' '' = pre @ t # post
        \<and> TrimSpace t = k @ CHR '':'' # v \<and> CHR '':'' \<notin> set k
        \<and> (\<forall>u\<in>set post. CHR '':'' \<in> set u \<longrightarrow>
               TrimSpace (Split (TrimSpace u) CHR '':'' ! 0) \<noteq> TrimSpace k) \<longrightarrow>
        map_of (snd (matchFields query)) (TrimSpace k)
          = Some (TrimSpace (takeWhile (\<lambda>c. c \<noteq> CHR '':'') v)))"
proof (intro conjI impI allI)
  let ?parts = "Split query CHR '' ''"
  let ?colon = "\<lambda>p. CHR '':'' \<in> set p"
  from assms have unfold: "matchFields query =
     (TrimSpace (foldl (\<lambda>q remove. ReplaceAll q remove []) query
                   (fst (foldl matchFields_part ([], []) ?parts))),
      snd (foldl matchFields_part ([], []) ?parts))"
    by (simp add: matchFields_colon Contains_char)
  {
    assume apart: "\<forall>t\<in>set ?parts. ?colon t \<longrightarrow> (\<forall>p\<in>set ?parts. p \<noteq> t \<longrightarrow> \<not> sublist t p)"
    have tokens: "\<forall>t\<in>set (filter ?colon ?parts).
        t \<noteq> [] \<and> CHR '' '' \<notin> set t \<and> (\<forall>p\<in>set ?parts. p \<noteq> t \<longrightarrow> \<not> sublist t p)"
      using apart Split_parts_no_sep [of _ query "CHR '' ''"] by auto
    have fold: "foldl (\<lambda>q remove. ReplaceAll q remove [])
            (Join (map (\<lambda>p. if p \<in> {} then [] else p) ?parts) CHR '' '') (filter ?colon ?parts)
          = Join (map (\<lambda>p. if p \<in> {} \<union> set (filter ?colon ?parts) then [] else p) ?parts) CHR '' ''"
      by (rule foldl_ReplaceAll_Join [OF tokens])
    have none: "map (\<lambda>p. if p \<in> {} then [] else p) ?parts = ?parts"
      by simp
    have blank: "map (\<lambda>p. if p \<in> {} \<union> set (filter ?colon ?parts) then [] else p) ?parts
                   = map (\<lambda>p. if ?colon p then [] else p) ?parts"
      by (rule map_cong) auto
    have removed: "foldl (\<lambda>q remove. ReplaceAll q remove []) query (filter ?colon ?parts)
        = Join (map (\<lambda>p. if ?colon p then [] else p) ?parts) CHR '' ''"
      using fold unfolding none blank Join_Split .
    show residual: "fst (matchFields query)
        = TrimSpace (Join (map (\<lambda>p. if ?colon p then [] else p) ?parts) CHR '' '')"
      using foldl_matchFields_part_toRemove [of "[]" "[]" ?parts]
      by (simp add: unfold removed)
    have "set (Join (map (\<lambda>p. if ?colon p then [] else p) ?parts) CHR '' '')
            \<subseteq> (\<Union>p\<in>set (map (\<lambda>p. if ?colon p then [] else p) ?parts). set p) \<union> {CHR '' ''}"
      by (rule set_Join)
    then have "CHR '':'' \<notin> set (Join (map (\<lambda>p. if ?colon p then [] else p) ?parts) CHR '' '')"
      by auto
    with set_TrimSpace [of "Join (map (\<lambda>p. if ?colon p then [] else p) ?parts) CHR '' ''"]
    show "CHR '':'' \<notin> set (fst (matchFields query))"
      unfolding residual by blast
  }
  fix pre t post k v
  assume hyp: "?parts = pre @ t # post
        \<and> TrimSpace t = k @ CHR '':'' # v \<and> CHR '':'' \<notin> set k
        \<and> (\<forall>u\<in>set post. CHR '':'' \<in> set u \<longrightarrow>
               TrimSpace (Split (TrimSpace u) CHR '':'' ! 0) \<noteq> TrimSpace k)"
  let ?acc = "matchFields_part (foldl matchFields_part ([], []) pre) t"
  from hyp have "foldl matchFields_part ([], []) ?parts = foldl matchFields_part ?acc post"
    by simp
  moreover from hyp have "map_of (snd (foldl matchFields_part ?acc post)) (TrimSpace k)
      = map_of (snd ?acc) (TrimSpace k)"
    by (intro foldl_matchFields_part_other_keys) simp
  moreover from hyp have "map_of (snd ?acc) (TrimSpace k)
      = Some (TrimSpace (takeWhile (\<lambda>c. c \<noteq> CHR '':'') v))"
    by (intro matchFields_part_entry) simp_all
  ultimately show "map_of (snd (matchFields query)) (TrimSpace k)
      = Some (TrimSpace (takeWhile (\<lambda>c. c \<noteq> CHR '':'') v))"
    by (simp add: unfold)
qed


theorem matchFields_colon_tokens_witness:
  "fst (matchFields ''foss language:EN k:v:w'') = ''foss''
   \<and> map_of (snd (matchFields ''foss language:EN k:v:w'')) ''k'' = Some ''v''
   \<and> map_of (snd (matchFields ''foss language:EN k:v:w'')) ''language'' = Some ''EN''"
proof -
  let ?q = "''foss language:EN k:v:w''"
  have colon: "CHR '':'' \<in> set ?q"
    by simp
  have parts: "Split ?q CHR '' '' = [''foss'', ''language:EN'', ''k:v:w'']"
    by simp
  have apart: "\<forall>t\<in>set (Split ?q CHR '' ''). CHR '':'' \<in> set t \<longrightarrow>
                 (\<forall>p\<in>set (Split ?q CHR '' ''). p \<noteq> t \<longrightarrow> \<not> sublist t p)"
    unfolding parts by code_simp
  have residual: "TrimSpace (Join (map (\<lambda>p. if CHR '':'' \<in> set p then [] else p)
                                     (Split ?q CHR '' '')) CHR '' '') = ''foss''"
    by code_simp
  have k: "Split ?q CHR '' '' = [''foss'', ''language:EN''] @ ''k:v:w'' # []
        \<and> TrimSpace ''k:v:w'' = ''k'' @ CHR '':'' # ''v:w'' \<and> CHR '':'' \<notin> set ''k''
        \<and> (\<forall>u\<in>set []. CHR '':'' \<in> set u \<longrightarrow>
               TrimSpace (Split (TrimSpace u) CHR '':'' ! 0) \<noteq> TrimSpace ''k'')"
    by code_simp
  have language: "Split ?q CHR '' '' = [''foss''] @ ''language:EN'' # [''k:v:w'']
        \<and> TrimSpace ''language:EN'' = ''language'' @ CHR '':'' # ''EN'' \<and> CHR '':'' \<notin> set ''language''
        \<and> (\<forall>u\<in>set [''k:v:w'']. CHR '':'' \<in> set u \<longrightarrow>
               TrimSpace (Split (TrimSpace u) CHR '':'' ! 0) \<noteq> TrimSpace ''language'')"
    by code_simp
  have trims: "TrimSpace ''k'' = ''k''" "TrimSpace ''v'' = ''v''"
    "TrimSpace ''language'' = ''language''" "TrimSpace ''EN'' = ''EN''"
    by code_simp+
  note w = matchFields_colon_tokens [OF colon]
  have "fst (matchFields ?q) = ''foss''"
    using w [THEN conjunct1, THEN mp, OF apart, THEN conjunct1] unfolding residual .
  with w [THEN conjunct2, rule_format, OF k] w [THEN conjunct2, rule_format, OF language]
  show ?thesis
    by (simp add: trims)
qed

text \<open>
  C10 (as stated) fails twice.  The bare token \<^verbatim>\<open>:\<close> does contribute a field: it maps the
  empty key to the empty string.  And a token with a colon can stay in the residual
  text: in \<^verbatim>\<open>:a ::aa\<close> the removal of \<^verbatim>\<open>:a\<close> cuts the second token down to \<^verbatim>\<open>:a\<close>, which the
  removal of \<^verbatim>\<open>::aa\<close> then does not find, so the residual text is \<^verbatim>\<open>:a\<close>.
\<close>

theorem matchFields_colon_tokens_counterexample:
  "matchFields '':'' = ([], [([], [])])
   \<and> matchFields '':a ::aa'' = ('':a'', [([], [])])"
  by code_simp

end
